theory Spec2Isabelle
  imports Complex_Main "HOL-Library.Word"
begin

section \<open>The GStreamer aging test \<open>gst_cycle.cpp\<close>\<close>

text \<open>
  A shallow embedding of \<open>gstreamer_aging_test_1.10.0/src/gst_cycle.cpp\<close> and of its
  older sibling \<open>hailo-sdk191/gstreamer_aging_test/src/gst_cycle.cpp\<close> (definitions
  with the suffix \<open>_sdk191\<close>).

  The file-scope variables of the program are the fields of the record \<open>app\<close>; every
  function of the source takes the record and returns it updated. GStreamer and GLib are
  outside the program: what they answer (whether \<open>gst_parse_launch\<close> succeeds, whether
  a pad links, ...) is an input of the model (\<open>build_outcome\<close>), and every call the
  program makes on a pipeline, on a tee request pad or on a timer is appended to the
  field \<open>trace\<close>, together with the lines written to the terminal. Objects returned by
  the engine are numbered in the order of their creation (\<open>next_handle\<close>).
\<close>

subsection \<open>Data\<close>

type_synonym handle = nat

datatype Phase = NULL_STATE | PLAYING | PAUSED | READY

datatype GstState =
  GST_STATE_VOID_PENDING | GST_STATE_NULL | GST_STATE_READY | GST_STATE_PAUSED | GST_STATE_PLAYING

datatype callback = Fps_log_cb | State_machine_cb

text \<open>
  The calls on the engine and the terminal output, in program order. \<open>RequestPad p r\<close>
  is \<open>gst_element_request_pad_simple\<close> on the tee of pipeline \<open>p\<close> with result \<open>r\<close>;
  \<open>UnrefPad\<close> and \<open>UnrefPipeline\<close> are \<open>gst_object_unref\<close> on a request pad and on
  the variable \<open>pipeline\<close> (or the local \<open>pipe\<close>), which may hold \<open>nullptr\<close>.
  \<open>GstInit argv\<close> is the call \<open>gst_init(&argc, &argv)\<close>, with the arguments of \<open>main\<close>
  after the program name.
\<close>

datatype event =
    GstInit "string list"
  | ParseLaunch "handle option"
  | BusAddWatch handle
  | RequestPad handle "handle option"
  | PadLink handle bool
  | UnrefPad handle
  | UnrefPipeline "handle option"
  | ConnectHandoff handle
  | SetState "handle option" GstState
  | GetState "handle option"
  | SourceRemove
  | TimeoutAdd nat callback
  | MainLoopUnref
  | Log string
  | LogTick "32 word" "int option"
  | LogFps string real

text \<open>
  The globals. \<open>frame_count\<close> is \<open>std::atomic<uint64_t>\<close>, \<open>last_frame_count\<close> is
  \<open>uint64_t\<close>; \<open>state_tick\<close> is an \<open>int\<close>, kept as its 32-bit two's complement
  pattern. \<open>state_timer_id\<close> is the GLib source id of the pending one-shot timer: the
  model keeps \<open>None\<close> for the id 0 and otherwise the interval, in seconds, the source
  was created with.
\<close>

record app =
  pipeline :: "handle option"
  frame_count :: "64 word"
  last_frame_count :: "64 word"
  current_stage :: string
  state_tick :: "32 word"
  state_timer_id :: "nat option"
  tee_req_pad_udp :: "handle option"
  tee_req_pad_fps :: "handle option"
  phase :: Phase
  phase_mode :: int
  main_loop :: bool
  trace :: "event list"
  next_handle :: handle

text \<open>What the engine answers to one request for a tee pad and the link that follows.\<close>

record pad_outcome =
  request_ok :: bool
  static_ok :: bool
  link_ok :: bool

text \<open>What the engine answers during one call of \<open>create_pipeline\<close>.\<close>

record build_outcome =
  parse_ok :: bool
  tee_found :: bool
  q_udp_ok :: bool
  pay_ok :: bool
  udp_ok :: bool
  q_fps_ok :: bool
  id_ok :: bool
  fsink_ok :: bool
  link_udp_branch_ok :: bool
  link_fps_branch_ok :: bool
  tee_udp :: pad_outcome
  tee_fps :: pad_outcome

definition emit :: "event list \<Rightarrow> app \<Rightarrow> app" where
  "emit es s = s\<lparr>trace := trace s @ es\<rparr>"

text \<open>The static initialisers of the globals.\<close>

definition boot :: app where
  "boot = \<lparr>pipeline = None, frame_count = 0, last_frame_count = 0,
            current_stage = ''NULL'', state_tick = 0, state_timer_id = None,
            tee_req_pad_udp = None, tee_req_pad_fps = None,
            phase = NULL_STATE, phase_mode = 3, main_loop = False,
            trace = [], next_handle = 0\<rparr>"

subsection \<open>Callbacks\<close>

text \<open>
  \<open>handle_sigint\<close> returns, beside the state, whether it asked the main loop to quit
  (\<open>if (loop) g_main_loop_quit(loop)\<close>).
\<close>

definition handle_sigint :: "app \<Rightarrow> bool \<times> app" where
  "handle_sigint s = (main_loop s, emit [Log ''[SIGNAL] SIGINT received, stopping...''] s)"

definition on_handoff :: "app \<Rightarrow> app" where
  "on_handoff s = s\<lparr>frame_count := frame_count s + 1\<rparr>"

text \<open>
  \<open>fps_log_cb\<close>: the difference is taken in \<open>uint64_t\<close>; the quotient \<open>diff / 5.0\<close> is a
  \<open>double\<close> in the source and the exact quotient here.
\<close>

definition fps_log_cb :: "app \<Rightarrow> app" where
  "fps_log_cb s =
     (let now = frame_count s;
          diff = now - last_frame_count s;
          s1 = s\<lparr>last_frame_count := now\<rparr>;
          fps = real (unat diff) / 5
      in emit [LogFps (current_stage s1) fps] s1)"

datatype bus_message = MsgError | MsgWarning | MsgStateChanged "handle option" | MsgOther

definition bus_cb :: "bus_message \<Rightarrow> app \<Rightarrow> app" where
  "bus_cb msg s =
     (case msg of
        MsgError \<Rightarrow> emit [Log ''[BUS][ERROR]''] s
      | MsgWarning \<Rightarrow> emit [Log ''[BUS][WARN]''] s
      | MsgStateChanged src \<Rightarrow>
          (if pipeline s \<noteq> None \<and> src = pipeline s then emit [Log ''[BUS][STATE] pipeline''] s
           else s)
      | MsgOther \<Rightarrow> s)"

definition set_pipeline_state :: "GstState \<Rightarrow> string \<Rightarrow> app \<Rightarrow> app" where
  "set_pipeline_state state name s =
     emit [Log (''[STATE] -> '' @ name), SetState (pipeline s) state, GetState (pipeline s),
           Log ''[STATE] set_state ret='']
       (s\<lparr>current_stage := name\<rparr>)"

definition arm_next_state_timer :: "nat \<Rightarrow> app \<Rightarrow> app" where
  "arm_next_state_timer seconds s =
     (let s1 = (if state_timer_id s \<noteq> None
                then emit [SourceRemove] (s\<lparr>state_timer_id := None\<rparr>) else s)
      in emit [TimeoutAdd seconds State_machine_cb] (s1\<lparr>state_timer_id := Some seconds\<rparr>))"

subsection \<open>Building the pipeline\<close>

text \<open>
  \<open>link_tee_to_queue_and_keep_pad\<close>, called on the tee of pipeline \<open>pipe\<close>. The
  reference on the queue's static sink pad is dropped on every path and is not a tee
  request pad, so it leaves no event.
\<close>

definition link_tee_to_queue_and_keep_pad ::
    "pad_outcome \<Rightarrow> handle \<Rightarrow> app \<Rightarrow> handle option \<times> app" where
  "link_tee_to_queue_and_keep_pad po pipe s =
     (if request_ok po then
        (let tee_src = next_handle s;
             s1 = emit [RequestPad pipe (Some tee_src)] (s\<lparr>next_handle := Suc tee_src\<rparr>)
         in if \<not> static_ok po then (None, emit [UnrefPad tee_src] s1)
            else if \<not> link_ok po then (None, emit [PadLink tee_src False, UnrefPad tee_src] s1)
            else (Some tee_src, emit [PadLink tee_src True] s1))
      else (None, emit [RequestPad pipe None] s))"

definition branch_elements_ok :: "build_outcome \<Rightarrow> bool" where
  "branch_elements_ok b =
     (q_udp_ok b \<and> pay_ok b \<and> udp_ok b \<and> q_fps_ok b \<and> id_ok b \<and> fsink_ok b)"

definition create_pipeline :: "build_outcome \<Rightarrow> app \<Rightarrow> handle option \<times> app" where
  "create_pipeline b s0 =
     (let s = s0\<lparr>tee_req_pad_udp := None, tee_req_pad_fps := None\<rparr> in
      if \<not> parse_ok b then
        (None, emit [ParseLaunch None, Log ''[ERROR] gst_parse_launch failed''] s)
      else
        let pipe = next_handle s;
            s1 = emit [ParseLaunch (Some pipe), BusAddWatch pipe] (s\<lparr>next_handle := Suc pipe\<rparr>)
        in
        if \<not> tee_found b then
          (None, emit [Log ''[ERROR] tee 'fourk_enc_tee' not found'', UnrefPipeline (Some pipe)] s1)
        else if \<not> branch_elements_ok b then
          (None, emit [Log ''[ERROR] failed to create branch elements'',
                       UnrefPipeline (Some pipe)] s1)
        else
          let s2 = (if \<not> link_udp_branch_ok b
                    then emit [Log ''[ERROR] failed to link UDP branch''] s1 else s1);
              s3 = (if \<not> link_fps_branch_ok b
                    then emit [Log ''[ERROR] failed to link FPS branch''] s2 else s2);
              (pad_udp, s4) = link_tee_to_queue_and_keep_pad (tee_udp b) pipe s3;
              s5 = s4\<lparr>tee_req_pad_udp := pad_udp\<rparr>;
              s6 = (if pad_udp = None
                    then emit [Log ''[ERROR] failed to link tee -> UDP queue''] s5 else s5);
              (pad_fps, s7) = link_tee_to_queue_and_keep_pad (tee_fps b) pipe s6;
              s8 = s7\<lparr>tee_req_pad_fps := pad_fps\<rparr>;
              s9 = (if pad_fps = None
                    then emit [Log ''[ERROR] failed to link tee -> FPS queue''] s8 else s8)
          in (Some pipe, emit [ConnectHandoff pipe] s9))"

subsection \<open>The state machine\<close>

text \<open>
  The statements that release the two recorded pads, unref the pipeline and build a new
  one stand twice in \<open>state_machine_cb\<close> (in the 3-phase branch of \<open>PAUSED\<close> and in
  \<open>READY\<close>), word for word; the model writes them once.
\<close>

definition release_tee_pads :: "app \<Rightarrow> app" where
  "release_tee_pads s =
     (let s1 = (case tee_req_pad_udp s of
                  Some p \<Rightarrow> (emit [UnrefPad p] s)\<lparr>tee_req_pad_udp := None\<rparr>
                | None \<Rightarrow> s)
      in (case tee_req_pad_fps s1 of
            Some p \<Rightarrow> (emit [UnrefPad p] s1)\<lparr>tee_req_pad_fps := None\<rparr>
          | None \<Rightarrow> s1))"

definition recreate_pipeline :: "build_outcome \<Rightarrow> app \<Rightarrow> app" where
  "recreate_pipeline b s =
     (let s1 = set_pipeline_state GST_STATE_NULL ''NULL'' s;
          s2 = release_tee_pads s1;
          s3 = emit [UnrefPipeline (pipeline s2)] s2;
          (pipe, s4) = create_pipeline b s3;
          s5 = s4\<lparr>pipeline := pipe\<rparr>;
          s6 = s5\<lparr>phase := NULL_STATE\<rparr>
      in arm_next_state_timer 1 s6)"

definition state_machine_cb :: "build_outcome \<Rightarrow> app \<Rightarrow> app" where
  "state_machine_cb b s0 =
     (let s = s0\<lparr>state_tick := state_tick s0 + 1\<rparr>;
          s = emit [LogTick (state_tick s) (Some (phase_mode s))] s
      in case phase s of
           NULL_STATE \<Rightarrow>
             arm_next_state_timer 10
               ((set_pipeline_state GST_STATE_PLAYING ''PLAYING'' s)\<lparr>phase := PLAYING\<rparr>)
         | PLAYING \<Rightarrow>
             arm_next_state_timer 1
               ((set_pipeline_state GST_STATE_PAUSED ''PAUSED'' s)\<lparr>phase := PAUSED\<rparr>)
         | PAUSED \<Rightarrow>
             (if phase_mode s = 4 then
                arm_next_state_timer 1
                  ((set_pipeline_state GST_STATE_READY ''READY'' s)\<lparr>phase := READY\<rparr>)
              else recreate_pipeline b s)
         | READY \<Rightarrow> recreate_pipeline b s)"

subsection \<open>The main loop\<close>

text \<open>
  What the GLib main loop can dispatch: the one-shot state timer (with the answers of
  the engine, should the callback rebuild the pipeline), the periodic FPS timer, a
  buffer passing the \<open>identity\<close> element on the engine's thread, a bus message, and
  SIGINT. The loop is generic in the callbacks registered with it.
\<close>

datatype loop_event =
  StateTimer build_outcome | FpsTimer | Handoff | Bus bus_message | Sigint

definition dispatch ::
    "(build_outcome \<Rightarrow> app \<Rightarrow> app) \<Rightarrow> (bus_message \<Rightarrow> app \<Rightarrow> app) \<Rightarrow> loop_event \<Rightarrow> app \<Rightarrow> app" where
  "dispatch timer_cb watch e s =
     (case e of
        StateTimer b \<Rightarrow> (if state_timer_id s \<noteq> None then timer_cb b s else s)
      | FpsTimer \<Rightarrow> fps_log_cb s
      | Handoff \<Rightarrow> on_handoff s
      | Bus msg \<Rightarrow> watch msg s
      | Sigint \<Rightarrow> snd (handle_sigint s))"

text \<open>
  \<open>g_main_loop_run\<close> returns once a SIGINT has made the handler call
  \<open>g_main_loop_quit\<close>; \<open>None\<close> says that the events given do not make it return.
\<close>

fun g_main_loop_run ::
    "(build_outcome \<Rightarrow> app \<Rightarrow> app) \<Rightarrow> (bus_message \<Rightarrow> app \<Rightarrow> app) \<Rightarrow> loop_event list \<Rightarrow> app \<Rightarrow> app option" where
  "g_main_loop_run timer_cb watch [] s = None"
| "g_main_loop_run timer_cb watch (e # es) s =
     (if e = Sigint \<and> fst (handle_sigint s) then Some (snd (handle_sigint s))
      else g_main_loop_run timer_cb watch es (dispatch timer_cb watch e s))"

subsection \<open>The command line and \<open>main\<close>\<close>

text \<open>
  \<open>std::stoi\<close> (base 10), as the C++ standard library defines it: leading white space is
  skipped, an optional sign and the longest run of digits are read, what follows is
  ignored; no digit throws \<open>std::invalid_argument\<close>, a value that does not fit an
  \<open>int\<close> throws \<open>std::out_of_range\<close>.
\<close>

datatype stoi_error = Invalid_argument | Out_of_range

definition is_space :: "char \<Rightarrow> bool" where
  "is_space c = (let n = (of_char c :: nat) in n = 32 \<or> (9 \<le> n \<and> n \<le> 13))"

definition is_digit :: "char \<Rightarrow> bool" where
  "is_digit c = (let n = (of_char c :: nat) in 48 \<le> n \<and> n \<le> 57)"

fun digits_value :: "nat \<Rightarrow> string \<Rightarrow> nat" where
  "digits_value acc [] = acc"
| "digits_value acc (c # cs) = digits_value (10 * acc + (of_char c - 48)) cs"

definition stoi :: "string \<Rightarrow> stoi_error + int" where
  "stoi str =
     (let s1 = dropWhile is_space str;
          neg = (s1 \<noteq> [] \<and> hd s1 = CHR ''-'');
          s2 = (if s1 \<noteq> [] \<and> (hd s1 = CHR ''-'' \<or> hd s1 = CHR ''+'') then tl s1 else s1);
          ds = takeWhile is_digit s2
      in if ds = [] then Inl Invalid_argument
         else let v = (if neg then - int (digits_value 0 ds) else int (digits_value 0 ds))
              in if v < - (2 ^ 31) \<or> 2 ^ 31 \<le> v then Inl Out_of_range else Inr v)"

text \<open>
  The argument loop of \<open>main\<close>, over \<open>argv[1..]\<close>; the first parameter is the value of
  \<open>phase_mode\<close> so far. \<open>Help\<close> is the \<open>return 0\<close> after \<open>print_help\<close>, \<open>Threw\<close> an
  exception of \<open>std::stoi\<close>, which nothing catches.
\<close>

datatype parsed = Help | Threw stoi_error | Parsed int

fun parse_args :: "int \<Rightarrow> string list \<Rightarrow> parsed" where
  "parse_args pm [] = Parsed pm"
| "parse_args pm (arg # rest) =
     (if arg = ''--help'' \<or> arg = ''-h'' then Help
      else if arg = ''--phase'' \<and> rest \<noteq> [] then
        (case stoi (hd rest) of
           Inl e \<Rightarrow> Threw e
         | Inr n \<Rightarrow> parse_args n (tl rest))
      else parse_args pm rest)"

text \<open>The tokens the argument loop compares with.\<close>

definition known :: "string \<Rightarrow> bool" where
  "known arg = (arg = ''--help'' \<or> arg = ''-h'' \<or> arg = ''--phase'')"

text \<open>
  How the process ends: \<open>main\<close> returns a value, \<open>std::terminate\<close> aborts it, or
  \<open>gst_init\<close> calls \<open>exit\<close> with a status.
\<close>

datatype exit = Returned int | Terminated stoi_error | Exited int

text \<open>
  \<open>main\<close> hands its whole command line to \<open>gst_init\<close>, which is the library's code: it
  parses the options of GStreamer out of the arguments and then either returns, or ends
  the process itself (it prints the version for \<open>--gst-version\<close> and exits; it exits
  when an option of its own is malformed or the library cannot be initialised). What
  it does is an input of the model, like the other answers of the engine: a function
  from the arguments to \<open>None\<close>, it returns, or to \<open>Some c\<close>, it exits with status \<open>c\<close>.
  The program reads no argument after this call.
\<close>

type_synonym gst_init_answer = "string list \<Rightarrow> int option"

text \<open>
  \<open>main\<close> from \<open>gst_init\<close> to the call of \<open>g_main_loop_run\<close>; \<open>Inl\<close> is the end of the
  process, inside \<open>gst_init\<close> or by \<open>return -1\<close>.
\<close>

definition main_startup ::
  "string list \<Rightarrow> gst_init_answer \<Rightarrow> build_outcome \<Rightarrow> app \<Rightarrow> (exit \<times> app) + app" where
  "main_startup args gi b s =
     (let s1 = emit [GstInit args] s
      in case gi args of
           Some c \<Rightarrow> Inl (Exited c, s1)
         | None \<Rightarrow>
             let (pipe, s2) = create_pipeline b s1;
                 s3 = s2\<lparr>pipeline := pipe\<rparr>
             in if pipeline s3 = None then Inl (Returned (- 1), s3)
                else
                  let s4 = s3\<lparr>main_loop := True\<rparr>;
                      s5 = emit [TimeoutAdd 5 Fps_log_cb] s4;
                      s6 = arm_next_state_timer 1 s5
                  in Inr (emit [Log ''[INFO] PLAYING=10s, PAUSED=1s, NULL=1s (recreate)''] s6))"

text \<open>\<open>main\<close> after \<open>g_main_loop_run\<close> has returned.\<close>

definition main_shutdown :: "app \<Rightarrow> app" where
  "main_shutdown s =
     (let s1 = emit [SetState (pipeline s) GST_STATE_NULL] s;
          s2 = release_tee_pads s1;
          s3 = emit [UnrefPipeline (pipeline s2)] s2
      in emit [MainLoopUnref] s3)"

definition main ::
  "string list \<Rightarrow> gst_init_answer \<Rightarrow> build_outcome \<Rightarrow> loop_event list \<Rightarrow> (exit \<times> app) option" where
  "main args gi b evs =
     (case parse_args (phase_mode boot) args of
        Help \<Rightarrow> Some (Returned 0, emit [Log ''Usage: ''] boot)
      | Threw e \<Rightarrow> Some (Terminated e, boot)
      | Parsed pm \<Rightarrow>
          let s = boot\<lparr>phase_mode := pm\<rparr> in
          if phase_mode s \<noteq> 3 \<and> phase_mode s \<noteq> 4 then
            Some (Returned (- 1), emit [Log ''[ERROR] --phase must be 3 or 4''] s)
          else
            (case main_startup args gi b s of
               Inl r \<Rightarrow> Some r
             | Inr s1 \<Rightarrow>
                 (case g_main_loop_run state_machine_cb bus_cb evs s1 of
                    None \<Rightarrow> None
                  | Some s2 \<Rightarrow> Some (Returned 0, main_shutdown s2))))"

subsection \<open>The older program (hailo-sdk191)\<close>

text \<open>
  \<open>hailo-sdk191/gstreamer_aging_test/src/gst_cycle.cpp\<close> has the same globals but the two
  pad variables, which stay \<open>None\<close>; it has no bus watch, no \<open>--phase\<close> option and always
  runs the four phases. Its \<open>main\<close> reads no argument and begins with \<open>gst_init\<close>.
\<close>

definition set_pipeline_state_sdk191 :: "GstState \<Rightarrow> string \<Rightarrow> app \<Rightarrow> app" where
  "set_pipeline_state_sdk191 state name s =
     emit [Log (''[STATE] -> '' @ name), SetState (pipeline s) state]
       (s\<lparr>current_stage := name\<rparr>)"

definition link_tee_to_queue_sdk191 :: "pad_outcome \<Rightarrow> handle \<Rightarrow> app \<Rightarrow> bool \<times> app" where
  "link_tee_to_queue_sdk191 po pipe s =
     (if request_ok po then
        (let tee_src = next_handle s;
             s1 = emit [RequestPad pipe (Some tee_src)] (s\<lparr>next_handle := Suc tee_src\<rparr>)
         in if \<not> static_ok po then (False, emit [UnrefPad tee_src] s1)
            else (link_ok po, emit [PadLink tee_src (link_ok po), UnrefPad tee_src] s1))
      else (False, emit [RequestPad pipe None] s))"

definition create_pipeline_sdk191 :: "build_outcome \<Rightarrow> app \<Rightarrow> handle option \<times> app" where
  "create_pipeline_sdk191 b s =
     (if \<not> parse_ok b then (None, emit [ParseLaunch None] s)
      else
        let pipe = next_handle s;
            s1 = emit [ParseLaunch (Some pipe)] (s\<lparr>next_handle := Suc pipe\<rparr>);
            (linked1, s2) = link_tee_to_queue_sdk191 (tee_udp b) pipe s1;
            (linked2, s3) = link_tee_to_queue_sdk191 (tee_fps b) pipe s2
        in (Some pipe, emit [ConnectHandoff pipe] s3))"

definition state_machine_cb_sdk191 :: "build_outcome \<Rightarrow> app \<Rightarrow> app" where
  "state_machine_cb_sdk191 b s0 =
     (let s = s0\<lparr>state_tick := state_tick s0 + 1\<rparr>;
          s = emit [LogTick (state_tick s) None] s
      in case phase s of
           NULL_STATE \<Rightarrow>
             arm_next_state_timer 10
               ((set_pipeline_state_sdk191 GST_STATE_PLAYING ''PLAYING'' s)\<lparr>phase := PLAYING\<rparr>)
         | PLAYING \<Rightarrow>
             arm_next_state_timer 1
               ((set_pipeline_state_sdk191 GST_STATE_PAUSED ''PAUSED'' s)\<lparr>phase := PAUSED\<rparr>)
         | PAUSED \<Rightarrow>
             arm_next_state_timer 1
               ((set_pipeline_state_sdk191 GST_STATE_READY ''READY'' s)\<lparr>phase := READY\<rparr>)
         | READY \<Rightarrow>
             (let s1 = set_pipeline_state_sdk191 GST_STATE_NULL ''NULL'' s;
                  s2 = emit [UnrefPipeline (pipeline s1)] s1;
                  (pipe, s3) = create_pipeline_sdk191 b s2;
                  s4 = s3\<lparr>pipeline := pipe\<rparr>;
                  s5 = s4\<lparr>phase := NULL_STATE\<rparr>
              in arm_next_state_timer 1 s5))"

definition main_startup_sdk191 ::
  "string list \<Rightarrow> gst_init_answer \<Rightarrow> build_outcome \<Rightarrow> app \<Rightarrow> (exit \<times> app) + app" where
  "main_startup_sdk191 args gi b s =
     (let s1 = emit [GstInit args] s
      in case gi args of
           Some c \<Rightarrow> Inl (Exited c, s1)
         | None \<Rightarrow>
             let (pipe, s2) = create_pipeline_sdk191 b s1;
                 s3 = s2\<lparr>pipeline := pipe\<rparr>
             in if pipeline s3 = None then Inl (Returned (- 1), s3)
                else
                  let s4 = s3\<lparr>main_loop := True\<rparr>;
                      s5 = emit [TimeoutAdd 5 Fps_log_cb] s4;
                      s6 = arm_next_state_timer 1 s5
                  in Inr (emit [Log ''[INFO] PLAYING=30s, PAUSED=1s, NULL=1s (recreate)''] s6))"

definition main_sdk191 ::
  "string list \<Rightarrow> gst_init_answer \<Rightarrow> build_outcome \<Rightarrow> loop_event list \<Rightarrow> (exit \<times> app) option" where
  "main_sdk191 args gi b evs =
     (case main_startup_sdk191 args gi b boot of
        Inl r \<Rightarrow> Some r
      | Inr s1 \<Rightarrow>
          (case g_main_loop_run state_machine_cb_sdk191 (\<lambda>msg s. s) evs s1 of
             None \<Rightarrow> None
           | Some s2 \<Rightarrow>
               Some (Returned 0,
                 emit [SetState (pipeline s2) GST_STATE_NULL, UnrefPipeline (pipeline s2),
                       MainLoopUnref] s2)))"

subsection \<open>Time\<close>

text \<open>
  The clock of the timed model counts whole seconds from the moment \<open>main\<close> arms the
  first timer. A source created by \<open>g_timeout_add_seconds n\<close> at second \<open>t\<close> is
  dispatched at second \<open>t + n\<close>; callbacks take no time. \<open>env t\<close> is what the engine
  answers should the callback of second \<open>t\<close> rebuild the pipeline.
\<close>

record timed =
  clock :: nat
  fires_at :: "nat option"
  world :: app

definition at_start :: "app \<Rightarrow> timed" where
  "at_start s = \<lparr>clock = 0, fires_at = state_timer_id s, world = s\<rparr>"

definition second_passes :: "(nat \<Rightarrow> build_outcome) \<Rightarrow> timed \<Rightarrow> timed" where
  "second_passes env w =
     (let t = Suc (clock w) in
      if fires_at w = Some t then
        (let s = state_machine_cb (env t) (world w)
         in \<lparr>clock = t, fires_at = map_option (\<lambda>seconds. t + seconds) (state_timer_id s),
             world = s\<rparr>)
      else w\<lparr>clock := t\<rparr>)"

subsection \<open>Reading a trace\<close>

text \<open>The pads released in a trace, and the pads the tee of a pipeline handed out.\<close>

definition released :: "event list \<Rightarrow> handle list" where
  "released tr = concat (map (\<lambda>e. case e of UnrefPad p \<Rightarrow> [p] | _ \<Rightarrow> []) tr)"

definition requested :: "handle \<Rightarrow> event list \<Rightarrow> handle list" where
  "requested pipe tr =
     concat (map (\<lambda>e. case e of RequestPad q (Some p) \<Rightarrow> (if q = pipe then [p] else [])
                            | _ \<Rightarrow> []) tr)"

text \<open>No pad is passed to \<open>gst_object_unref\<close> twice.\<close>

definition never_released_twice :: "event list \<Rightarrow> bool" where
  "never_released_twice tr = distinct (released tr)"

text \<open>
  Wherever the trace unrefs a pipeline, every pad its tee handed out (anywhere in the
  trace) has been released in the part of the trace before that unref.
\<close>

definition released_before_unref :: "event list \<Rightarrow> bool" where
  "released_before_unref tr =
     (\<forall>i<length tr. \<forall>pipe. tr ! i = UnrefPipeline (Some pipe) \<longrightarrow>
        set (requested pipe tr) \<subseteq> set (released (take i tr)))"

text \<open>The order of the phases, and the label \<open>set_pipeline_state\<close> logs for each.\<close>

definition cycle3 :: "Phase list" where
  "cycle3 = [NULL_STATE, PLAYING, PAUSED]"

definition cycle4 :: "Phase list" where
  "cycle4 = [NULL_STATE, PLAYING, PAUSED, READY]"

fun label :: "Phase \<Rightarrow> string" where
  "label NULL_STATE = ''NULL''"
| "label PLAYING = ''PLAYING''"
| "label PAUSED = ''PAUSED''"
| "label READY = ''READY''"

text \<open>The state timer callbacks among the events of a run.\<close>

definition firings :: "loop_event list \<Rightarrow> nat" where
  "firings evs = length (filter (\<lambda>e. case e of StateTimer b \<Rightarrow> True | _ \<Rightarrow> False) evs)"

subsection \<open>The events of one call\<close>

text \<open>
  The pads the two global variables record, in the order \<open>release_tee_pads\<close> releases
  them.
\<close>

definition owned :: "app \<Rightarrow> handle list" where
  "owned s =
     (case tee_req_pad_udp s of Some p \<Rightarrow> [p] | None \<Rightarrow> []) @
     (case tee_req_pad_fps s of Some p \<Rightarrow> [p] | None \<Rightarrow> [])"

text \<open>
  What a call of \<open>link_tee_to_queue_and_keep_pad\<close> on the tee of \<open>pipe\<close> appends to the
  trace and returns when \<open>n\<close> is the next free handle, and how many handles it uses;
  likewise for \<open>create_pipeline\<close>. The lemmas \<open>link_effect\<close> and \<open>create_effect\<close> below
  prove that the functions do exactly this.
\<close>

definition link_events :: "pad_outcome \<Rightarrow> handle \<Rightarrow> handle \<Rightarrow> event list" where
  "link_events po pipe n =
     (if request_ok po then
        RequestPad pipe (Some n) #
          (if \<not> static_ok po then [UnrefPad n]
           else if \<not> link_ok po then [PadLink n False, UnrefPad n]
           else [PadLink n True])
      else [RequestPad pipe None])"

definition link_result :: "pad_outcome \<Rightarrow> handle \<Rightarrow> handle option" where
  "link_result po n = (if request_ok po \<and> static_ok po \<and> link_ok po then Some n else None)"

definition link_used :: "pad_outcome \<Rightarrow> nat" where
  "link_used po = (if request_ok po then 1 else 0)"

definition builds :: "build_outcome \<Rightarrow> bool" where
  "builds b = (parse_ok b \<and> tee_found b \<and> branch_elements_ok b)"

definition branch_events :: "build_outcome \<Rightarrow> handle \<Rightarrow> event list" where
  "branch_events b pipe =
     (if \<not> link_udp_branch_ok b then [Log ''[ERROR] failed to link UDP branch''] else []) @
     (if \<not> link_fps_branch_ok b then [Log ''[ERROR] failed to link FPS branch''] else []) @
     link_events (tee_udp b) pipe (Suc pipe) @
     (if link_result (tee_udp b) (Suc pipe) = None
      then [Log ''[ERROR] failed to link tee -> UDP queue''] else []) @
     link_events (tee_fps b) pipe (Suc pipe + link_used (tee_udp b)) @
     (if link_result (tee_fps b) (Suc pipe + link_used (tee_udp b)) = None
      then [Log ''[ERROR] failed to link tee -> FPS queue''] else []) @
     [ConnectHandoff pipe]"

definition create_events :: "build_outcome \<Rightarrow> handle \<Rightarrow> event list" where
  "create_events b n =
     (if \<not> parse_ok b then [ParseLaunch None, Log ''[ERROR] gst_parse_launch failed'']
      else [ParseLaunch (Some n), BusAddWatch n] @
        (if \<not> tee_found b then
           [Log ''[ERROR] tee 'fourk_enc_tee' not found'', UnrefPipeline (Some n)]
         else if \<not> branch_elements_ok b then
           [Log ''[ERROR] failed to create branch elements'', UnrefPipeline (Some n)]
         else branch_events b n))"

definition create_used :: "build_outcome \<Rightarrow> nat" where
  "create_used b =
     (if \<not> parse_ok b then 0
      else if builds b then Suc (link_used (tee_udp b) + link_used (tee_fps b))
      else 1)"

text \<open>The same for the older program.\<close>

definition link_events_sdk191 :: "pad_outcome \<Rightarrow> handle \<Rightarrow> handle \<Rightarrow> event list" where
  "link_events_sdk191 po pipe n =
     (if request_ok po then
        RequestPad pipe (Some n) #
          (if \<not> static_ok po then [UnrefPad n] else [PadLink n (link_ok po), UnrefPad n])
      else [RequestPad pipe None])"

definition create_events_sdk191 :: "build_outcome \<Rightarrow> handle \<Rightarrow> event list" where
  "create_events_sdk191 b n =
     (if \<not> parse_ok b then [ParseLaunch None]
      else ParseLaunch (Some n) #
        link_events_sdk191 (tee_udp b) n (Suc n) @
        link_events_sdk191 (tee_fps b) n (Suc n + link_used (tee_udp b)) @
        [ConnectHandoff n])"

definition create_used_sdk191 :: "build_outcome \<Rightarrow> nat" where
  "create_used_sdk191 b =
     (if parse_ok b then Suc (link_used (tee_udp b) + link_used (tee_fps b)) else 0)"

subsection \<open>The invariant of the traces\<close>

text \<open>
  \<open>accounted tr n live held\<close>: in the trace \<open>tr\<close>, with \<open>n\<close> the next free handle, \<open>live\<close>
  the pipeline not yet unreffed and \<open>held\<close> the pads requested and not yet released,
  \<^item> no pad was released twice, and no pad in \<open>held\<close> was released;
  \<^item> every pad requested from a tee was released, but those in \<open>held\<close>, which belong
    to the tee of \<open>live\<close>;
  \<^item> the handles in use are below \<open>n\<close>, and \<open>live\<close> was not unreffed;
  \<^item> whenever a pipeline was unreffed, the pads of its tee had been released.
\<close>

definition accounted :: "event list \<Rightarrow> handle \<Rightarrow> handle option \<Rightarrow> handle set \<Rightarrow> bool" where
  "accounted tr n live held \<longleftrightarrow>
     distinct (released tr) \<and>
     set (released tr) \<subseteq> {..<n} \<and>
     held \<subseteq> {..<n} \<and>
     held \<inter> set (released tr) = {} \<and>
     (\<forall>q. set (requested q tr) \<subseteq> set (released tr) \<union> (if live = Some q then held else {})) \<and>
     (\<forall>q. requested q tr \<noteq> [] \<or> UnrefPipeline (Some q) \<in> set tr \<longrightarrow> q < n) \<and>
     (\<forall>q. live = Some q \<longrightarrow> q < n \<and> UnrefPipeline (Some q) \<notin> set tr) \<and>
     released_before_unref tr"

text \<open>Events that concern neither a pad nor the end of a pipeline.\<close>

definition neutral :: "event list \<Rightarrow> bool" where
  "neutral es \<longleftrightarrow>
     released es = [] \<and> (\<forall>q. requested q es = []) \<and> (\<forall>q. UnrefPipeline (Some q) \<notin> set es)"

text \<open>The invariant of the program states between two callbacks.\<close>

definition pads_accounted :: "app \<Rightarrow> bool" where
  "pads_accounted s \<longleftrightarrow>
     accounted (trace s) (next_handle s) (pipeline s) (set (owned s)) \<and> distinct (owned s)"

subsection \<open>Sample answers of the engine\<close>

definition pad_fine :: pad_outcome where
  "pad_fine = \<lparr>request_ok = True, static_ok = True, link_ok = True\<rparr>"

definition pad_unlinked :: pad_outcome where
  "pad_unlinked = \<lparr>request_ok = True, static_ok = True, link_ok = False\<rparr>"

text \<open>Everything succeeds.\<close>

definition all_ok :: build_outcome where
  "all_ok = \<lparr>parse_ok = True, tee_found = True, q_udp_ok = True, pay_ok = True,
              udp_ok = True, q_fps_ok = True, id_ok = True, fsink_ok = True,
              link_udp_branch_ok = True, link_fps_branch_ok = True,
              tee_udp = pad_fine, tee_fps = pad_fine\<rparr>"

text \<open>\<open>gst_parse_launch\<close> returns \<open>NULL\<close>.\<close>

definition parse_fails :: build_outcome where
  "parse_fails = all_ok\<lparr>parse_ok := False\<rparr>"

text \<open>The \<open>identity\<close> element of the FPS branch cannot be made.\<close>

definition identity_missing :: build_outcome where
  "identity_missing = all_ok\<lparr>id_ok := False\<rparr>"

text \<open>The FPS branch does not link, neither internally nor to the tee.\<close>

definition fps_unlinked :: build_outcome where
  "fps_unlinked = all_ok\<lparr>link_fps_branch_ok := False, tee_fps := pad_unlinked\<rparr>"

text \<open>\<open>gst_init\<close> finds nothing of its own among the arguments and returns.\<close>

definition gst_init_returns :: gst_init_answer where
  "gst_init_returns argv = None"

text \<open>
  \<open>gst_init\<close> as GStreamer documents it for two of its options: \<open>--gst-version\<close> prints
  the version and exits with status 0, and \<open>--gst-debug-level\<close>, which needs a value,
  as the last argument fails the parse, after which \<open>gst_init\<close> exits with status 1.
\<close>

definition gst_init_options :: gst_init_answer where
  "gst_init_options argv =
     (if ''--gst-version'' \<in> set argv then Some 0
      else if argv \<noteq> [] \<and> last argv = ''--gst-debug-level'' then Some 1
      else None)"

section \<open>What each function leaves unchanged\<close>

lemma link_keeps:
  "pipeline (snd (link_tee_to_queue_and_keep_pad po pipe s)) = pipeline s"
  "frame_count (snd (link_tee_to_queue_and_keep_pad po pipe s)) = frame_count s"
  "last_frame_count (snd (link_tee_to_queue_and_keep_pad po pipe s)) = last_frame_count s"
  "current_stage (snd (link_tee_to_queue_and_keep_pad po pipe s)) = current_stage s"
  "state_tick (snd (link_tee_to_queue_and_keep_pad po pipe s)) = state_tick s"
  "state_timer_id (snd (link_tee_to_queue_and_keep_pad po pipe s)) = state_timer_id s"
  "tee_req_pad_udp (snd (link_tee_to_queue_and_keep_pad po pipe s)) = tee_req_pad_udp s"
  "tee_req_pad_fps (snd (link_tee_to_queue_and_keep_pad po pipe s)) = tee_req_pad_fps s"
  "phase (snd (link_tee_to_queue_and_keep_pad po pipe s)) = phase s"
  "phase_mode (snd (link_tee_to_queue_and_keep_pad po pipe s)) = phase_mode s"
  "main_loop (snd (link_tee_to_queue_and_keep_pad po pipe s)) = main_loop s"
  by (simp_all add: link_tee_to_queue_and_keep_pad_def Let_def emit_def)

lemma create_keeps:
  "pipeline (snd (create_pipeline b s)) = pipeline s"
  "frame_count (snd (create_pipeline b s)) = frame_count s"
  "last_frame_count (snd (create_pipeline b s)) = last_frame_count s"
  "current_stage (snd (create_pipeline b s)) = current_stage s"
  "state_tick (snd (create_pipeline b s)) = state_tick s"
  "state_timer_id (snd (create_pipeline b s)) = state_timer_id s"
  "phase (snd (create_pipeline b s)) = phase s"
  "phase_mode (snd (create_pipeline b s)) = phase_mode s"
  "main_loop (snd (create_pipeline b s)) = main_loop s"
  by (simp_all add: create_pipeline_def Let_def split_def emit_def link_keeps)

lemma release_keeps:
  "pipeline (release_tee_pads s) = pipeline s"
  "frame_count (release_tee_pads s) = frame_count s"
  "last_frame_count (release_tee_pads s) = last_frame_count s"
  "current_stage (release_tee_pads s) = current_stage s"
  "state_tick (release_tee_pads s) = state_tick s"
  "state_timer_id (release_tee_pads s) = state_timer_id s"
  "phase (release_tee_pads s) = phase s"
  "phase_mode (release_tee_pads s) = phase_mode s"
  "main_loop (release_tee_pads s) = main_loop s"
  "next_handle (release_tee_pads s) = next_handle s"
  "tee_req_pad_udp (release_tee_pads s) = None"
  "tee_req_pad_fps (release_tee_pads s) = None"
  by (simp_all add: release_tee_pads_def Let_def emit_def split: option.splits)

lemma recreate_fields:
  "frame_count (recreate_pipeline b s) = frame_count s"
  "last_frame_count (recreate_pipeline b s) = last_frame_count s"
  "current_stage (recreate_pipeline b s) = ''NULL''"
  "state_tick (recreate_pipeline b s) = state_tick s"
  "state_timer_id (recreate_pipeline b s) = Some 1"
  "phase (recreate_pipeline b s) = NULL_STATE"
  "phase_mode (recreate_pipeline b s) = phase_mode s"
  "main_loop (recreate_pipeline b s) = main_loop s"
  by (simp_all add: recreate_pipeline_def Let_def split_def emit_def create_keeps release_keeps
      arm_next_state_timer_def set_pipeline_state_def)

lemma state_machine_cb_fields:
  "frame_count (state_machine_cb b s) = frame_count s"
  "last_frame_count (state_machine_cb b s) = last_frame_count s"
  "state_tick (state_machine_cb b s) = state_tick s + 1"
  "phase_mode (state_machine_cb b s) = phase_mode s"
  "main_loop (state_machine_cb b s) = main_loop s"
  "phase (state_machine_cb b s) =
     (case phase s of NULL_STATE \<Rightarrow> PLAYING | PLAYING \<Rightarrow> PAUSED
      | PAUSED \<Rightarrow> (if phase_mode s = 4 then READY else NULL_STATE) | READY \<Rightarrow> NULL_STATE)"
  "state_timer_id (state_machine_cb b s) = Some (if phase s = NULL_STATE then 10 else 1)"
  "current_stage (state_machine_cb b s) = label (phase (state_machine_cb b s))"
  by (simp_all add: state_machine_cb_def Let_def emit_def recreate_fields
      arm_next_state_timer_def set_pipeline_state_def split: Phase.splits)

lemma link_sdk191_keeps:
  "pipeline (snd (link_tee_to_queue_sdk191 po pipe s)) = pipeline s"
  "frame_count (snd (link_tee_to_queue_sdk191 po pipe s)) = frame_count s"
  "last_frame_count (snd (link_tee_to_queue_sdk191 po pipe s)) = last_frame_count s"
  "current_stage (snd (link_tee_to_queue_sdk191 po pipe s)) = current_stage s"
  "state_tick (snd (link_tee_to_queue_sdk191 po pipe s)) = state_tick s"
  "state_timer_id (snd (link_tee_to_queue_sdk191 po pipe s)) = state_timer_id s"
  "tee_req_pad_udp (snd (link_tee_to_queue_sdk191 po pipe s)) = tee_req_pad_udp s"
  "tee_req_pad_fps (snd (link_tee_to_queue_sdk191 po pipe s)) = tee_req_pad_fps s"
  "phase (snd (link_tee_to_queue_sdk191 po pipe s)) = phase s"
  "phase_mode (snd (link_tee_to_queue_sdk191 po pipe s)) = phase_mode s"
  "main_loop (snd (link_tee_to_queue_sdk191 po pipe s)) = main_loop s"
  by (simp_all add: link_tee_to_queue_sdk191_def Let_def emit_def)

lemma create_sdk191_keeps:
  "pipeline (snd (create_pipeline_sdk191 b s)) = pipeline s"
  "frame_count (snd (create_pipeline_sdk191 b s)) = frame_count s"
  "last_frame_count (snd (create_pipeline_sdk191 b s)) = last_frame_count s"
  "current_stage (snd (create_pipeline_sdk191 b s)) = current_stage s"
  "state_tick (snd (create_pipeline_sdk191 b s)) = state_tick s"
  "state_timer_id (snd (create_pipeline_sdk191 b s)) = state_timer_id s"
  "tee_req_pad_udp (snd (create_pipeline_sdk191 b s)) = tee_req_pad_udp s"
  "tee_req_pad_fps (snd (create_pipeline_sdk191 b s)) = tee_req_pad_fps s"
  "phase (snd (create_pipeline_sdk191 b s)) = phase s"
  "phase_mode (snd (create_pipeline_sdk191 b s)) = phase_mode s"
  "main_loop (snd (create_pipeline_sdk191 b s)) = main_loop s"
  by (simp_all add: create_pipeline_sdk191_def Let_def split_def emit_def link_sdk191_keeps)

lemma state_machine_cb_sdk191_fields:
  "frame_count (state_machine_cb_sdk191 b s) = frame_count s"
  "last_frame_count (state_machine_cb_sdk191 b s) = last_frame_count s"
  "state_tick (state_machine_cb_sdk191 b s) = state_tick s + 1"
  "phase_mode (state_machine_cb_sdk191 b s) = phase_mode s"
  "main_loop (state_machine_cb_sdk191 b s) = main_loop s"
  "tee_req_pad_udp (state_machine_cb_sdk191 b s) = tee_req_pad_udp s"
  "tee_req_pad_fps (state_machine_cb_sdk191 b s) = tee_req_pad_fps s"
  "phase (state_machine_cb_sdk191 b s) =
     (case phase s of NULL_STATE \<Rightarrow> PLAYING | PLAYING \<Rightarrow> PAUSED
      | PAUSED \<Rightarrow> READY | READY \<Rightarrow> NULL_STATE)"
  "state_timer_id (state_machine_cb_sdk191 b s) = Some (if phase s = NULL_STATE then 10 else 1)"
  "current_stage (state_machine_cb_sdk191 b s) = label (phase (state_machine_cb_sdk191 b s))"
  by (simp_all add: state_machine_cb_sdk191_def Let_def split_def emit_def create_sdk191_keeps
      arm_next_state_timer_def set_pipeline_state_sdk191_def split: Phase.splits)

lemma other_callbacks_fields:
  "phase (fps_log_cb s) = phase s" "phase_mode (fps_log_cb s) = phase_mode s"
  "state_timer_id (fps_log_cb s) = state_timer_id s" "state_tick (fps_log_cb s) = state_tick s"
  "frame_count (fps_log_cb s) = frame_count s" "current_stage (fps_log_cb s) = current_stage s"
  "phase (on_handoff s) = phase s" "phase_mode (on_handoff s) = phase_mode s"
  "state_timer_id (on_handoff s) = state_timer_id s" "state_tick (on_handoff s) = state_tick s"
  "current_stage (on_handoff s) = current_stage s"
  "phase (bus_cb msg s) = phase s" "phase_mode (bus_cb msg s) = phase_mode s"
  "state_timer_id (bus_cb msg s) = state_timer_id s" "state_tick (bus_cb msg s) = state_tick s"
  "frame_count (bus_cb msg s) = frame_count s" "current_stage (bus_cb msg s) = current_stage s"
  "phase (snd (handle_sigint s)) = phase s" "phase_mode (snd (handle_sigint s)) = phase_mode s"
  "state_timer_id (snd (handle_sigint s)) = state_timer_id s"
  "state_tick (snd (handle_sigint s)) = state_tick s"
  "frame_count (snd (handle_sigint s)) = frame_count s"
  "current_stage (snd (handle_sigint s)) = current_stage s"
  by (simp_all add: fps_log_cb_def on_handoff_def bus_cb_def handle_sigint_def Let_def emit_def
      split: bus_message.splits)

text \<open>Once armed, the state timer stays armed, and the mode never changes.\<close>

lemma dispatch_armed:
  "state_timer_id s \<noteq> None \<Longrightarrow> state_timer_id (dispatch state_machine_cb bus_cb e s) \<noteq> None"
  by (cases e) (simp_all add: dispatch_def state_machine_cb_fields other_callbacks_fields)

lemma dispatch_mode:
  "phase_mode (dispatch state_machine_cb bus_cb e s) = phase_mode s"
  by (cases e) (simp_all add: dispatch_def state_machine_cb_fields other_callbacks_fields)

lemma dispatch_sdk191_armed:
  "state_timer_id s \<noteq> None \<Longrightarrow>
   state_timer_id (dispatch state_machine_cb_sdk191 (\<lambda>msg s. s) e s) \<noteq> None"
  by (cases e) (simp_all add: dispatch_def state_machine_cb_sdk191_fields other_callbacks_fields)

lemma firings_Cons:
  "firings (e # evs) = (case e of StateTimer b \<Rightarrow> Suc (firings evs) | _ \<Rightarrow> firings evs)"
  by (simp add: firings_def split: loop_event.splits)

lemma cycle3_run:
  "state_timer_id s \<noteq> None \<Longrightarrow> phase_mode s \<noteq> 4 \<Longrightarrow> k < 3 \<Longrightarrow> phase s = cycle3 ! k \<Longrightarrow>
   phase (fold (dispatch state_machine_cb bus_cb) evs s) = cycle3 ! ((k + firings evs) mod 3)"
proof (induction evs arbitrary: s k)
  case Nil
  then show ?case by (simp add: firings_def)
next
  case (Cons e evs)
  let ?s = "dispatch state_machine_cb bus_cb e s"
  have armed: "state_timer_id ?s \<noteq> None" and mode: "phase_mode ?s \<noteq> 4"
    using Cons.prems by (simp_all add: dispatch_armed dispatch_mode)
  show ?case
  proof (cases "\<exists>b. e = StateTimer b")
    case True
    then obtain b where e: "e = StateTimer b" ..
    from Cons.prems have k: "k = 0 \<or> k = 1 \<or> k = 2" by arith
    have step: "phase ?s = cycle3 ! (Suc k mod 3)"
      using Cons.prems k by (auto simp: e dispatch_def state_machine_cb_fields cycle3_def)
    have "phase (fold (dispatch state_machine_cb bus_cb) evs ?s)
            = cycle3 ! ((Suc k mod 3 + firings evs) mod 3)"
      by (rule Cons.IH [OF armed mode _ step]) simp
    moreover have "(Suc k mod 3 + firings evs) mod 3 = (k + firings (e # evs)) mod 3"
      by (simp add: e firings_Cons mod_simps)
    ultimately show ?thesis by simp
  next
    case False
    then have same: "phase ?s = phase s" "firings (e # evs) = firings evs"
      by (cases e; simp add: dispatch_def other_callbacks_fields firings_Cons)+
    have "phase (fold (dispatch state_machine_cb bus_cb) evs ?s)
            = cycle3 ! ((k + firings evs) mod 3)"
      by (rule Cons.IH [OF armed mode Cons.prems(3)]) (simp add: same Cons.prems)
    then show ?thesis by (simp add: same)
  qed
qed

section \<open>The phase cycle\<close>

text \<open>The phase walks the cycle of its mode, one step for each state timer callback.\<close>

lemma cycle4_run:
  "state_timer_id s \<noteq> None \<Longrightarrow> phase_mode s = 4 \<Longrightarrow> k < 4 \<Longrightarrow> phase s = cycle4 ! k \<Longrightarrow>
   phase (fold (dispatch state_machine_cb bus_cb) evs s) = cycle4 ! ((k + firings evs) mod 4)"
proof (induction evs arbitrary: s k)
  case Nil
  then show ?case by (simp add: firings_def)
next
  case (Cons e evs)
  let ?s = "dispatch state_machine_cb bus_cb e s"
  have armed: "state_timer_id ?s \<noteq> None" and mode: "phase_mode ?s = 4"
    using Cons.prems by (simp_all add: dispatch_armed dispatch_mode)
  show ?case
  proof (cases "\<exists>b. e = StateTimer b")
    case True
    then obtain b where e: "e = StateTimer b" ..
    from Cons.prems have k: "k = 0 \<or> k = 1 \<or> k = 2 \<or> k = 3" by arith
    have step: "phase ?s = cycle4 ! (Suc k mod 4)"
      using Cons.prems k by (auto simp: e dispatch_def state_machine_cb_fields cycle4_def)
    have "phase (fold (dispatch state_machine_cb bus_cb) evs ?s)
            = cycle4 ! ((Suc k mod 4 + firings evs) mod 4)"
      by (rule Cons.IH [OF armed mode _ step]) simp
    moreover have "(Suc k mod 4 + firings evs) mod 4 = (k + firings (e # evs)) mod 4"
      by (simp add: e firings_Cons mod_simps)
    ultimately show ?thesis by simp
  next
    case False
    then have same: "phase ?s = phase s" "firings (e # evs) = firings evs"
      by (cases e; simp add: dispatch_def other_callbacks_fields firings_Cons)+
    have "phase (fold (dispatch state_machine_cb bus_cb) evs ?s)
            = cycle4 ! ((k + firings evs) mod 4)"
      by (rule Cons.IH [OF armed mode Cons.prems(3)]) (simp add: same Cons.prems)
    then show ?thesis by (simp add: same)
  qed
qed

lemma cycle4_run_sdk191:
  "state_timer_id s \<noteq> None \<Longrightarrow> k < 4 \<Longrightarrow> phase s = cycle4 ! k \<Longrightarrow>
   phase (fold (dispatch state_machine_cb_sdk191 (\<lambda>msg s. s)) evs s)
     = cycle4 ! ((k + firings evs) mod 4)"
proof (induction evs arbitrary: s k)
  case Nil
  then show ?case by (simp add: firings_def)
next
  case (Cons e evs)
  let ?s = "dispatch state_machine_cb_sdk191 (\<lambda>msg s. s) e s"
  have armed: "state_timer_id ?s \<noteq> None"
    using Cons.prems by (simp add: dispatch_sdk191_armed)
  show ?case
  proof (cases "\<exists>b. e = StateTimer b")
    case True
    then obtain b where e: "e = StateTimer b" ..
    from Cons.prems have k: "k = 0 \<or> k = 1 \<or> k = 2 \<or> k = 3" by arith
    have step: "phase ?s = cycle4 ! (Suc k mod 4)"
      using Cons.prems k by (auto simp: e dispatch_def state_machine_cb_sdk191_fields cycle4_def)
    have "phase (fold (dispatch state_machine_cb_sdk191 (\<lambda>msg s. s)) evs ?s)
            = cycle4 ! ((Suc k mod 4 + firings evs) mod 4)"
      by (rule Cons.IH [OF armed _ step]) simp
    moreover have "(Suc k mod 4 + firings evs) mod 4 = (k + firings (e # evs)) mod 4"
      by (simp add: e firings_Cons mod_simps)
    ultimately show ?thesis by simp
  next
    case False
    then have same: "phase ?s = phase s" "firings (e # evs) = firings evs"
      by (cases e; simp add: dispatch_def other_callbacks_fields firings_Cons)+
    have "phase (fold (dispatch state_machine_cb_sdk191 (\<lambda>msg s. s)) evs ?s)
            = cycle4 ! ((k + firings evs) mod 4)"
      by (rule Cons.IH [OF armed Cons.prems(2)]) (simp add: same Cons.prems)
    then show ?thesis by (simp add: same)
  qed
qed

text \<open>The state in which \<open>main\<close> enters the loop.\<close>

lemma main_startup_Inr:
  assumes "main_startup args gi b s = Inr s'"
  shows "state_timer_id s' = Some 1" "phase s' = phase s" "phase_mode s' = phase_mode s"
    "state_tick s' = state_tick s" "frame_count s' = frame_count s"
    "last_frame_count s' = last_frame_count s" "current_stage s' = current_stage s"
    "main_loop s'" "pipeline s' \<noteq> None" "gi args = None"
  using assms
  by (auto simp: main_startup_def Let_def split_def emit_def arm_next_state_timer_def
      create_keeps split: if_splits option.splits)

lemma main_startup_sdk191_Inr:
  assumes "main_startup_sdk191 args gi b s = Inr s'"
  shows "state_timer_id s' = Some 1" "phase s' = phase s" "phase_mode s' = phase_mode s"
    "state_tick s' = state_tick s" "frame_count s' = frame_count s"
    "last_frame_count s' = last_frame_count s" "current_stage s' = current_stage s"
    "main_loop s'" "pipeline s' \<noteq> None"
    "tee_req_pad_udp s' = tee_req_pad_udp s" "tee_req_pad_fps s' = tee_req_pad_fps s"
    "gi args = None"
  using assms
  by (auto simp: main_startup_sdk191_def Let_def split_def emit_def arm_next_state_timer_def
      create_sdk191_keeps split: if_splits option.splits)

lemma create_pipeline_succeeds:
  "parse_ok b \<Longrightarrow> tee_found b \<Longrightarrow> branch_elements_ok b \<Longrightarrow> fst (create_pipeline b s) \<noteq> None"
  by (simp add: create_pipeline_def Let_def split_def)

lemma main_startup_enters_loop:
  "gi args = None \<Longrightarrow> parse_ok b \<Longrightarrow> tee_found b \<Longrightarrow> branch_elements_ok b \<Longrightarrow>
   \<exists>s'. main_startup args gi b s = Inr s'"
  using create_pipeline_succeeds [of b "emit [GstInit args] s"]
  by (simp add: main_startup_def Let_def split_def)

lemma main_startup_sdk191_enters_loop:
  "gi args = None \<Longrightarrow> parse_ok b \<Longrightarrow> \<exists>s'. main_startup_sdk191 args gi b s = Inr s'"
  by (simp add: main_startup_sdk191_def create_pipeline_sdk191_def Let_def split_def)

lemma all_ok_simps:
  "parse_ok all_ok" "tee_found all_ok" "branch_elements_ok all_ok"
  by (simp_all add: all_ok_def branch_elements_ok_def)

lemma all_ok_enters_loop:
  "\<exists>s'. main_startup args gst_init_returns all_ok s = Inr s'"
  using main_startup_enters_loop [of gst_init_returns args all_ok s] all_ok_simps
  by (simp add: gst_init_returns_def)

lemma all_ok_enters_loop_sdk191:
  "\<exists>s'. main_startup_sdk191 args gst_init_returns all_ok s = Inr s'"
  using main_startup_sdk191_enters_loop [of gst_init_returns args all_ok s] all_ok_simps
  by (simp add: gst_init_returns_def)

text \<open>
  Claim C4. From the state in which \<open>main\<close> enters the loop (phase \<open>NULL_STATE\<close>), the
  phase after any run of loop events is determined by the number of state timer callbacks
  among them: in 3-phase mode it is the entry of NULL, PLAYING, PAUSED at that number modulo
  3, in 4-phase mode the entry of NULL, PLAYING, PAUSED, READY at that number modulo 4,
  whatever the engine answers to the rebuilds; the older program always runs the 4-phase
  cycle.
\<close>

theorem phase_cycle:
  "(main_startup args gi b (boot\<lparr>phase_mode := 3\<rparr>) = Inr s \<longrightarrow>
      phase (fold (dispatch state_machine_cb bus_cb) evs s) = cycle3 ! (firings evs mod 3)) \<and>
   (main_startup args gi b (boot\<lparr>phase_mode := 4\<rparr>) = Inr s \<longrightarrow>
      phase (fold (dispatch state_machine_cb bus_cb) evs s) = cycle4 ! (firings evs mod 4)) \<and>
   (main_startup_sdk191 args gi b boot = Inr s \<longrightarrow>
      phase (fold (dispatch state_machine_cb_sdk191 (\<lambda>msg s. s)) evs s)
        = cycle4 ! (firings evs mod 4))"
proof (intro conjI impI)
  assume a: "main_startup args gi b (boot\<lparr>phase_mode := 3\<rparr>) = Inr s"
  have "phase (fold (dispatch state_machine_cb bus_cb) evs s) = cycle3 ! ((0 + firings evs) mod 3)"
    using main_startup_Inr [OF a]
    by (intro cycle3_run) (simp_all add: boot_def cycle3_def)
  then show "phase (fold (dispatch state_machine_cb bus_cb) evs s) = cycle3 ! (firings evs mod 3)"
    by simp
next
  assume a: "main_startup args gi b (boot\<lparr>phase_mode := 4\<rparr>) = Inr s"
  have "phase (fold (dispatch state_machine_cb bus_cb) evs s) = cycle4 ! ((0 + firings evs) mod 4)"
    using main_startup_Inr [OF a]
    by (intro cycle4_run) (simp_all add: boot_def cycle4_def)
  then show "phase (fold (dispatch state_machine_cb bus_cb) evs s) = cycle4 ! (firings evs mod 4)"
    by simp
next
  assume a: "main_startup_sdk191 args gi b boot = Inr s"
  have "phase (fold (dispatch state_machine_cb_sdk191 (\<lambda>msg s. s)) evs s)
          = cycle4 ! ((0 + firings evs) mod 4)"
    using main_startup_sdk191_Inr [OF a]
    by (intro cycle4_run_sdk191) (simp_all add: boot_def cycle4_def)
  then show "phase (fold (dispatch state_machine_cb_sdk191 (\<lambda>msg s. s)) evs s)
          = cycle4 ! (firings evs mod 4)"
    by simp
qed

theorem phase_cycle_witness:
  "(\<exists>s. main_startup [] gst_init_returns all_ok (boot\<lparr>phase_mode := 3\<rparr>) = Inr s \<and>
      phase (fold (dispatch state_machine_cb bus_cb)
               [StateTimer all_ok, Handoff, StateTimer all_ok, FpsTimer, StateTimer parse_fails,
                StateTimer all_ok] s) = PLAYING) \<and>
   (\<exists>s. main_startup [] gst_init_returns all_ok (boot\<lparr>phase_mode := 4\<rparr>) = Inr s \<and>
      phase (fold (dispatch state_machine_cb bus_cb)
               [StateTimer all_ok, StateTimer all_ok, StateTimer all_ok] s) = READY) \<and>
   (\<exists>s. main_startup_sdk191 [] gst_init_returns all_ok boot = Inr s \<and>
      phase (fold (dispatch state_machine_cb_sdk191 (\<lambda>msg s. s))
               [StateTimer all_ok, StateTimer all_ok, StateTimer all_ok] s) = READY)"
proof (intro conjI)
  obtain s where s: "main_startup [] gst_init_returns all_ok (boot\<lparr>phase_mode := 3\<rparr>) = Inr s"
    using all_ok_enters_loop by blast
  let ?evs = "[StateTimer all_ok, Handoff, StateTimer all_ok, FpsTimer, StateTimer parse_fails,
                StateTimer all_ok]"
  have "phase (fold (dispatch state_machine_cb bus_cb) ?evs s) = cycle3 ! (firings ?evs mod 3)"
    using phase_cycle [of "[]" gst_init_returns all_ok s ?evs] s by blast
  then have "phase (fold (dispatch state_machine_cb bus_cb) ?evs s) = PLAYING"
    by (simp add: firings_def cycle3_def)
  with s show "\<exists>s. main_startup [] gst_init_returns all_ok (boot\<lparr>phase_mode := 3\<rparr>) = Inr s \<and>
      phase (fold (dispatch state_machine_cb bus_cb) ?evs s) = PLAYING" by blast
next
  obtain s where s: "main_startup [] gst_init_returns all_ok (boot\<lparr>phase_mode := 4\<rparr>) = Inr s"
    using all_ok_enters_loop by blast
  let ?evs = "[StateTimer all_ok, StateTimer all_ok, StateTimer all_ok]"
  have "phase (fold (dispatch state_machine_cb bus_cb) ?evs s) = cycle4 ! (firings ?evs mod 4)"
    using phase_cycle [of "[]" gst_init_returns all_ok s ?evs] s by blast
  then have "phase (fold (dispatch state_machine_cb bus_cb) ?evs s) = READY"
    by (simp add: firings_def cycle4_def)
  with s show "\<exists>s. main_startup [] gst_init_returns all_ok (boot\<lparr>phase_mode := 4\<rparr>) = Inr s \<and>
      phase (fold (dispatch state_machine_cb bus_cb) ?evs s) = READY" by blast
next
  obtain s where s: "main_startup_sdk191 [] gst_init_returns all_ok boot = Inr s"
    using all_ok_enters_loop_sdk191 by blast
  let ?evs = "[StateTimer all_ok, StateTimer all_ok, StateTimer all_ok]"
  have "phase (fold (dispatch state_machine_cb_sdk191 (\<lambda>msg s. s)) ?evs s)
          = cycle4 ! (firings ?evs mod 4)"
    using phase_cycle [of "[]" gst_init_returns all_ok s ?evs] s by blast
  then have "phase (fold (dispatch state_machine_cb_sdk191 (\<lambda>msg s. s)) ?evs s) = READY"
    by (simp add: firings_def cycle4_def)
  with s show "\<exists>s. main_startup_sdk191 [] gst_init_returns all_ok boot = Inr s \<and>
      phase (fold (dispatch state_machine_cb_sdk191 (\<lambda>msg s. s)) ?evs s) = READY" by blast
qed

section \<open>The counter and its sampler\<close>

lemma dispatch_frame_count:
  "frame_count (dispatch state_machine_cb bus_cb e s)
     = (if e = Handoff then frame_count s + 1 else frame_count s)"
  by (cases e)
    (simp_all add: dispatch_def state_machine_cb_fields other_callbacks_fields on_handoff_def)

lemma dispatch_last_frame_count:
  "e \<noteq> FpsTimer \<Longrightarrow> last_frame_count (dispatch state_machine_cb bus_cb e s) = last_frame_count s"
  by (cases e)
    (simp_all add: dispatch_def state_machine_cb_fields on_handoff_def bus_cb_def
      handle_sigint_def emit_def split: bus_message.splits)

lemma dispatch_state_tick:
  "state_tick (dispatch state_machine_cb bus_cb e s)
     = (if (\<exists>b. e = StateTimer b) \<and> state_timer_id s \<noteq> None then state_tick s + 1
        else state_tick s)"
  by (cases e)
    (simp_all add: dispatch_def state_machine_cb_fields other_callbacks_fields)

lemma run_frame_count:
  "frame_count (fold (dispatch state_machine_cb bus_cb) evs s)
     = frame_count s + of_nat (count_list evs Handoff)"
  by (induction evs arbitrary: s) (simp_all add: dispatch_frame_count)

lemma run_last_frame_count:
  "FpsTimer \<notin> set evs \<Longrightarrow>
   last_frame_count (fold (dispatch state_machine_cb bus_cb) evs s) = last_frame_count s"
  by (induction evs arbitrary: s) (auto simp: dispatch_last_frame_count)

lemma count_list_replicate: "count_list (replicate n x) x = n"
  by (induction n) simp_all

text \<open>The label of the last state set is the label of the phase.\<close>

lemma dispatch_stage:
  "current_stage s = label (phase s) \<Longrightarrow>
   current_stage (dispatch state_machine_cb bus_cb e s)
     = label (phase (dispatch state_machine_cb bus_cb e s))"
  by (cases e)
    (simp_all add: dispatch_def state_machine_cb_fields other_callbacks_fields)

lemma run_stage:
  "current_stage s = label (phase s) \<Longrightarrow>
   current_stage (fold (dispatch state_machine_cb bus_cb) evs s)
     = label (phase (fold (dispatch state_machine_cb bus_cb) evs s))"
  by (induction evs arbitrary: s) (simp_all add: dispatch_stage)

lemma fps_log_cb_trace:
  "trace (fps_log_cb s)
     = trace s @ [LogFps (current_stage s) (real (unat (frame_count s - last_frame_count s)) / 5)]"
  by (simp add: fps_log_cb_def Let_def emit_def)

lemma fps_log_cb_last:
  "last_frame_count (fps_log_cb s) = frame_count s"
  by (simp add: fps_log_cb_def Let_def emit_def)

text \<open>
  Claim C6. Let \<open>s\<close> be any state the loop of the running program reaches. A call of
  \<open>fps_log_cb\<close> appends one line to the log: it carries the label of the current phase and
  the rate (current - previous) / 5, the difference taken in \<open>uint64_t\<close>; and it stores
  the current count as the previous one. If after one call of the sampler the loop
  dispatches any events among which there are exactly 150 handoffs and no sampler call,
  the next sampler call logs the rate 30.
\<close>

theorem sampler_rate:
  assumes start: "main_startup args gi b (boot\<lparr>phase_mode := m\<rparr>) = Inr s0"
    and s: "s = fold (dispatch state_machine_cb bus_cb) evs s0"
    and u: "u = fold (dispatch state_machine_cb bus_cb) window (fps_log_cb s)"
  shows "trace (fps_log_cb s)
           = trace s @ [LogFps (label (phase s))
                          (real (unat (frame_count s - last_frame_count s)) / 5)]
         \<and> last_frame_count (fps_log_cb s) = frame_count s
         \<and> frame_count (fps_log_cb s) = frame_count s
         \<and> (FpsTimer \<notin> set window \<and> count_list window Handoff = 150 \<longrightarrow>
              trace (fps_log_cb u) = trace u @ [LogFps (label (phase u)) 30])"
proof -
  have stage0: "current_stage s0 = label (phase s0)"
    using main_startup_Inr [OF start] by (simp add: boot_def)
  have stage: "current_stage s = label (phase s)"
    unfolding s by (rule run_stage [OF stage0])
  have line: "trace (fps_log_cb s)
           = trace s @ [LogFps (label (phase s))
                          (real (unat (frame_count s - last_frame_count s)) / 5)]"
    by (simp add: fps_log_cb_trace stage)
  have window: "trace (fps_log_cb u) = trace u @ [LogFps (label (phase u)) 30]"
    if w: "FpsTimer \<notin> set window" "count_list window Handoff = 150"
  proof -
    have "u = fold (dispatch state_machine_cb bus_cb) (evs @ FpsTimer # window) s0"
      by (simp add: u s dispatch_def)
    then have "current_stage u = label (phase u)"
      by (simp only: run_stage [OF stage0])
    moreover have "frame_count u - last_frame_count u = 150"
      using w by (simp add: u run_frame_count run_last_frame_count fps_log_cb_last
          other_callbacks_fields)
    ultimately show ?thesis
      by (simp add: fps_log_cb_trace)
  qed
  show ?thesis
    using line window by (simp add: fps_log_cb_last other_callbacks_fields)
qed

theorem sampler_rate_witness:
  "\<exists>s0. main_startup [] gst_init_returns all_ok (boot\<lparr>phase_mode := 3\<rparr>) = Inr s0 \<and>
     (let s = fold (dispatch state_machine_cb bus_cb) [StateTimer all_ok, Handoff, Handoff] s0;
          u = fold (dispatch state_machine_cb bus_cb) (replicate 150 Handoff) (fps_log_cb s)
      in FpsTimer \<notin> set (replicate 150 Handoff) \<and>
         count_list (replicate 150 Handoff) Handoff = 150 \<and>
         last (trace (fps_log_cb s)) = LogFps ''PLAYING'' (2 / 5) \<and>
         last (trace (fps_log_cb u)) = LogFps (label (phase u)) 30)"
proof -
  obtain s0 where s0: "main_startup [] gst_init_returns all_ok (boot\<lparr>phase_mode := 3\<rparr>) = Inr s0"
    using all_ok_enters_loop by blast
  define s where "s = fold (dispatch state_machine_cb bus_cb) [StateTimer all_ok, Handoff, Handoff] s0"
  define u where "u = fold (dispatch state_machine_cb bus_cb) (replicate 150 Handoff) (fps_log_cb s)"
  have n: "count_list (replicate 150 Handoff) Handoff = 150"
    by (simp add: count_list_replicate)
  have fields: "phase s = PLAYING" "frame_count s - last_frame_count s = 2"
    using main_startup_Inr [OF s0]
    by (simp_all add: s_def dispatch_def state_machine_cb_fields on_handoff_def boot_def)
  have "last (trace (fps_log_cb s)) = LogFps ''PLAYING'' (2 / 5)"
    using sampler_rate [OF s0 s_def u_def] by (simp add: fields)
  moreover have "last (trace (fps_log_cb u)) = LogFps (label (phase u)) 30"
    using sampler_rate [OF s0 s_def u_def] n by simp
  ultimately show ?thesis
    using s0 n by (auto simp: s_def u_def Let_def)
qed

text \<open>The counters along a run, read as the numbers they stand for.\<close>

lemma run_frame_count_unat:
  assumes "unat (frame_count s) + count_list evs Handoff < 2 ^ 64"
  shows "unat (frame_count (fold (dispatch state_machine_cb bus_cb) evs s))
           = unat (frame_count s) + count_list evs Handoff"
proof -
  have "unat (frame_count s + of_nat (count_list evs Handoff))
          = (unat (frame_count s) + count_list evs Handoff) mod 2 ^ 64"
    by (simp add: unat_word_ariths unat_of_nat mod_simps)
  with assms show ?thesis by (simp add: run_frame_count)
qed

lemma sint_succ:
  fixes x :: "32 word"
  assumes "sint x + 1 < 2 ^ 31"
  shows "sint (x + 1) = sint x + 1"
proof -
  have "- (2 ^ 31) \<le> sint x"
    using sint_ge [of x] by simp
  with assms have "signed_take_bit 31 (sint x + 1) = sint x + 1"
    by (intro signed_take_bit_int_eq_self) simp_all
  then show ?thesis
    by (simp add: sint_word_ariths)
qed

lemma run_state_tick_sint:
  assumes "sint (state_tick s) + int (firings evs) < 2 ^ 31"
  shows "sint (state_tick s) \<le> sint (state_tick (fold (dispatch state_machine_cb bus_cb) evs s))
       \<and> sint (state_tick (fold (dispatch state_machine_cb bus_cb) evs s))
           \<le> sint (state_tick s) + int (firings evs)"
  using assms
proof (induction evs arbitrary: s)
  case Nil
  then show ?case by simp
next
  case (Cons e evs)
  let ?s1 = "dispatch state_machine_cb bus_cb e s"
  show ?case
  proof (cases "(\<exists>b. e = StateTimer b) \<and> state_timer_id s \<noteq> None")
    case True
    then have f: "firings (e # evs) = Suc (firings evs)"
      by (auto simp: firings_def)
    with Cons.prems have "sint (state_tick s) + 1 < 2 ^ 31"
      by simp
    then have t: "sint (state_tick ?s1) = sint (state_tick s) + 1"
      using True by (simp add: dispatch_state_tick sint_succ)
    with Cons.prems f have "sint (state_tick ?s1) + int (firings evs) < 2 ^ 31"
      by simp
    from Cons.IH [OF this] t f show ?thesis
      by simp
  next
    case False
    then have t: "state_tick ?s1 = state_tick s"
      by (simp add: dispatch_state_tick)
    have f: "firings evs \<le> firings (e # evs)"
      by (simp add: firings_def)
    with Cons.prems t have "sint (state_tick ?s1) + int (firings evs) < 2 ^ 31"
      by simp
    from Cons.IH [OF this] t f show ?thesis
      by simp
  qed
qed

lemma firings_append: "firings (pre @ post) = firings pre + firings post"
  by (simp add: firings_def)

text \<open>
  Claim C5. Every event the loop dispatches leaves \<open>frame_count\<close> unchanged or adds one
  to it (only a handoff does), and leaves \<open>state_tick\<close> unchanged or adds one to it (only
  the state timer callback does); rebuilding the pipeline changes neither, nor does the
  shutdown in \<open>main\<close>. So nothing resets them, and along a run both are non-decreasing:
  \<open>frame_count\<close>, a \<open>uint64_t\<close>, as long as the run counts fewer than \<open>2^64\<close> buffers in
  all, and \<open>state_tick\<close>, an \<open>int\<close>, as long as it stays below \<open>2^31\<close>, which is so while
  the state timer has fired fewer than \<open>2^31\<close> times. The timer fires at most once a
  second, so these bounds hold of every run shorter than 68 years.
\<close>

theorem counters_only_increment:
  fixes e :: loop_event and s :: app and b :: build_outcome
  defines "s' \<equiv> dispatch state_machine_cb bus_cb e s"
  shows "(frame_count s' = frame_count s \<or> frame_count s' = frame_count s + 1)
       \<and> (state_tick s' = state_tick s \<or> state_tick s' = state_tick s + 1)
       \<and> (frame_count s' \<noteq> frame_count s \<longrightarrow> e = Handoff)
       \<and> (state_tick s' \<noteq> state_tick s \<longrightarrow> (\<exists>b. e = StateTimer b))
       \<and> frame_count (recreate_pipeline b s) = frame_count s
       \<and> state_tick (recreate_pipeline b s) = state_tick s
       \<and> frame_count (main_shutdown s) = frame_count s
       \<and> state_tick (main_shutdown s) = state_tick s
       \<and> (unat (frame_count s) + count_list (pre @ post) Handoff < 2 ^ 64 \<longrightarrow>
            frame_count (fold (dispatch state_machine_cb bus_cb) pre s)
              \<le> frame_count (fold (dispatch state_machine_cb bus_cb) (pre @ post) s))
       \<and> (sint (state_tick s) + int (firings (pre @ post)) < 2 ^ 31 \<longrightarrow>
            sint (state_tick (fold (dispatch state_machine_cb bus_cb) pre s))
              \<le> sint (state_tick (fold (dispatch state_machine_cb bus_cb) (pre @ post) s)))"
proof -
  have mono: "frame_count (fold (dispatch state_machine_cb bus_cb) pre s)
              \<le> frame_count (fold (dispatch state_machine_cb bus_cb) (pre @ post) s)"
    if bound: "unat (frame_count s) + count_list (pre @ post) Handoff < 2 ^ 64"
  proof -
    have "unat (frame_count (fold (dispatch state_machine_cb bus_cb) pre s))
            = unat (frame_count s) + count_list pre Handoff"
      using bound by (intro run_frame_count_unat) simp
    moreover have "unat (frame_count (fold (dispatch state_machine_cb bus_cb) (pre @ post) s))
            = unat (frame_count s) + count_list (pre @ post) Handoff"
      using bound by (rule run_frame_count_unat)
    ultimately show ?thesis by (simp add: word_le_nat_alt)
  qed
  have ticks: "sint (state_tick (fold (dispatch state_machine_cb bus_cb) pre s))
              \<le> sint (state_tick (fold (dispatch state_machine_cb bus_cb) (pre @ post) s))"
    if bound: "sint (state_tick s) + int (firings (pre @ post)) < 2 ^ 31"
  proof -
    let ?mid = "fold (dispatch state_machine_cb bus_cb) pre s"
    from bound have "sint (state_tick s) + int (firings pre) < 2 ^ 31"
      by (simp add: firings_append)
    from run_state_tick_sint [OF this] bound
    have "sint (state_tick ?mid) + int (firings post) < 2 ^ 31"
      by (simp add: firings_append)
    from run_state_tick_sint [OF this] show ?thesis
      by simp
  qed
  have stop: "frame_count (main_shutdown s) = frame_count s"
    "state_tick (main_shutdown s) = state_tick s"
    by (simp_all add: main_shutdown_def Let_def emit_def release_keeps)
  have step: "frame_count s' = frame_count s \<or> frame_count s' = frame_count s + 1"
    "state_tick s' = state_tick s \<or> state_tick s' = state_tick s + 1"
    "frame_count s' \<noteq> frame_count s \<longrightarrow> e = Handoff"
    "state_tick s' \<noteq> state_tick s \<longrightarrow> (\<exists>b. e = StateTimer b)"
    by (auto simp: s'_def dispatch_frame_count dispatch_state_tick)
  have rebuild: "frame_count (recreate_pipeline b s) = frame_count s"
    "state_tick (recreate_pipeline b s) = state_tick s"
    by (simp_all add: recreate_fields)
  show ?thesis
  proof (intro conjI impI)
    show "frame_count s' = frame_count s \<or> frame_count s' = frame_count s + 1"
      by (fact step(1))
    show "state_tick s' = state_tick s \<or> state_tick s' = state_tick s + 1"
      by (fact step(2))
    show "e = Handoff" if "frame_count s' \<noteq> frame_count s"
      using step(3) that by (rule mp)
    show "\<exists>b. e = StateTimer b" if "state_tick s' \<noteq> state_tick s"
      using step(4) that by (rule mp)
    show "frame_count (recreate_pipeline b s) = frame_count s"
      by (fact rebuild(1))
    show "state_tick (recreate_pipeline b s) = state_tick s"
      by (fact rebuild(2))
    show "frame_count (main_shutdown s) = frame_count s"
      by (fact stop(1))
    show "state_tick (main_shutdown s) = state_tick s"
      by (fact stop(2))
    show "frame_count (fold (dispatch state_machine_cb bus_cb) pre s)
            \<le> frame_count (fold (dispatch state_machine_cb bus_cb) (pre @ post) s)"
      if "unat (frame_count s) + count_list (pre @ post) Handoff < 2 ^ 64"
      using that by (rule mono)
    show "sint (state_tick (fold (dispatch state_machine_cb bus_cb) pre s))
            \<le> sint (state_tick (fold (dispatch state_machine_cb bus_cb) (pre @ post) s))"
      if "sint (state_tick s) + int (firings (pre @ post)) < 2 ^ 31"
      using that by (rule ticks)
  qed
qed

theorem counters_only_increment_witness:
  "\<exists>s0. main_startup [] gst_init_returns all_ok (boot\<lparr>phase_mode := 3\<rparr>) = Inr s0
     \<and> unat (frame_count s0) + count_list ([Handoff] @ [StateTimer all_ok, Handoff]) Handoff < 2 ^ 64
     \<and> frame_count (fold (dispatch state_machine_cb bus_cb) [Handoff] s0)
         \<le> frame_count (fold (dispatch state_machine_cb bus_cb)
              ([Handoff] @ [StateTimer all_ok, Handoff]) s0)
     \<and> sint (state_tick s0) + int (firings ([Handoff] @ [StateTimer all_ok, Handoff])) < 2 ^ 31
     \<and> sint (state_tick (fold (dispatch state_machine_cb bus_cb) [Handoff] s0))
         \<le> sint (state_tick (fold (dispatch state_machine_cb bus_cb)
              ([Handoff] @ [StateTimer all_ok, Handoff]) s0))
     \<and> frame_count (dispatch state_machine_cb bus_cb Handoff s0) = 1
     \<and> state_tick (dispatch state_machine_cb bus_cb Handoff s0) = 0
     \<and> state_tick (dispatch state_machine_cb bus_cb (StateTimer all_ok) s0) = 1
     \<and> frame_count (recreate_pipeline all_ok s0) = 0
     \<and> state_tick (recreate_pipeline all_ok s0) = 0"
proof -
  obtain s0 where s0: "main_startup [] gst_init_returns all_ok (boot\<lparr>phase_mode := 3\<rparr>) = Inr s0"
    using all_ok_enters_loop by blast
  have zero: "frame_count s0 = 0" "state_tick s0 = 0" "state_timer_id s0 = Some 1"
    using main_startup_Inr [OF s0] by (simp_all add: boot_def)
  have bound: "unat (frame_count s0) + count_list ([Handoff] @ [StateTimer all_ok, Handoff]) Handoff
                 < 2 ^ 64"
    by (simp add: zero)
  have bound': "sint (state_tick s0) + int (firings ([Handoff] @ [StateTimer all_ok, Handoff]))
                 < 2 ^ 31"
    by (simp add: zero firings_def)
  have one: "frame_count (dispatch state_machine_cb bus_cb Handoff s0) = 1"
    "state_tick (dispatch state_machine_cb bus_cb (StateTimer all_ok) s0) = 1"
    by (simp_all add: dispatch_frame_count dispatch_state_tick zero)
  note inst = counters_only_increment
    [of Handoff s0 all_ok "[Handoff]" "[StateTimer all_ok, Handoff]"]
  from inst bound have mono: "frame_count (fold (dispatch state_machine_cb bus_cb) [Handoff] s0)
       \<le> frame_count (fold (dispatch state_machine_cb bus_cb)
            ([Handoff] @ [StateTimer all_ok, Handoff]) s0)"
    by blast
  from inst bound'
  have ticks: "sint (state_tick (fold (dispatch state_machine_cb bus_cb) [Handoff] s0))
       \<le> sint (state_tick (fold (dispatch state_machine_cb bus_cb)
            ([Handoff] @ [StateTimer all_ok, Handoff]) s0))"
    by blast
  from inst one(1) have tick: "state_tick (dispatch state_machine_cb bus_cb Handoff s0) = 0"
    by (auto simp: zero)
  from inst have rebuild: "frame_count (recreate_pipeline all_ok s0) = 0"
    "state_tick (recreate_pipeline all_ok s0) = 0"
    by (simp_all add: zero)
  from s0 bound bound' mono ticks one tick rebuild show ?thesis
    by blast
qed

section \<open>The timed scenario\<close>

lemma second_passes_idle:
  "fires_at w \<noteq> Some (Suc (clock w)) \<Longrightarrow> second_passes env w = w\<lparr>clock := Suc (clock w)\<rparr>"
  by (simp add: second_passes_def)

lemma second_passes_fire:
  "fires_at w = Some (Suc (clock w)) \<Longrightarrow>
   second_passes env w =
     \<lparr>clock = Suc (clock w),
      fires_at = Some (Suc (clock w) + (if phase (world w) = NULL_STATE then 10 else 1)),
      world = state_machine_cb (env (Suc (clock w))) (world w)\<rparr>"
  by (simp add: second_passes_def Let_def state_machine_cb_fields)

lemma seconds_pass_idle:
  "fires_at w = Some f \<Longrightarrow> clock w + n < f \<Longrightarrow>
   (second_passes env ^^ n) w = w\<lparr>clock := clock w + n\<rparr>"
proof (induction n)
  case 0
  then show ?case by simp
next
  case (Suc n)
  then have "(second_passes env ^^ n) w = w\<lparr>clock := clock w + n\<rparr>"
    by simp
  moreover have "second_passes env (w\<lparr>clock := clock w + n\<rparr>) = w\<lparr>clock := Suc (clock w + n)\<rparr>"
    using Suc.prems by (simp add: second_passes_idle)
  ultimately show ?case by simp
qed

text \<open>
  Claim C7. In 3-phase mode, with the clock started when \<open>main\<close> arms the first timer and
  every timer dispatched exactly when it is due, 22 seconds later the state machine has
  run four times (at seconds 1, 11, 12 and 13), so \<open>state_tick\<close> is 4, which is at least
  2, and the phase is \<open>PLAYING\<close>; the next callback is due at second 23.
\<close>

theorem after_22_seconds:
  assumes start: "main_startup args gi b (boot\<lparr>phase_mode := 3\<rparr>) = Inr s"
  shows "(let w = (second_passes env ^^ 22) (at_start s)
          in clock w = 22 \<and> phase (world w) = PLAYING \<and> state_tick (world w) = 4
             \<and> 2 \<le> sint (state_tick (world w)) \<and> fires_at w = Some 23)"
proof -
  note s = main_startup_Inr [OF start]
  define s1 where "s1 = state_machine_cb (env 1) s"
  define s2 where "s2 = state_machine_cb (env 11) s1"
  define s3 where "s3 = state_machine_cb (env 12) s2"
  define s4 where "s4 = state_machine_cb (env 13) s3"
  have p1: "phase s1 = PLAYING" "phase_mode s1 = 3" "state_tick s1 = 1"
    using s by (simp_all add: s1_def state_machine_cb_fields boot_def)
  have p2: "phase s2 = PAUSED" "phase_mode s2 = 3" "state_tick s2 = 2"
    using p1 by (simp_all add: s2_def state_machine_cb_fields)
  have p3: "phase s3 = NULL_STATE" "phase_mode s3 = 3" "state_tick s3 = 3"
    using p2 by (simp_all add: s3_def state_machine_cb_fields)
  have p4: "phase s4 = PLAYING" "phase_mode s4 = 3" "state_tick s4 = 4"
    using p3 by (simp_all add: s4_def state_machine_cb_fields)
  have w1: "second_passes env (at_start s) = \<lparr>clock = 1, fires_at = Some 11, world = s1\<rparr>"
    using s by (simp add: second_passes_fire at_start_def s1_def boot_def)
  have w10: "(second_passes env ^^ 9) \<lparr>clock = 1, fires_at = Some 11, world = s1\<rparr>
               = \<lparr>clock = 10, fires_at = Some 11, world = s1\<rparr>"
    by (simp add: seconds_pass_idle [where f = 11])
  have w11: "second_passes env \<lparr>clock = 10, fires_at = Some 11, world = s1\<rparr>
               = \<lparr>clock = 11, fires_at = Some 12, world = s2\<rparr>"
    using p1 by (simp add: second_passes_fire s2_def)
  have w12: "second_passes env \<lparr>clock = 11, fires_at = Some 12, world = s2\<rparr>
               = \<lparr>clock = 12, fires_at = Some 13, world = s3\<rparr>"
    using p2 by (simp add: second_passes_fire s3_def)
  have w13: "second_passes env \<lparr>clock = 12, fires_at = Some 13, world = s3\<rparr>
               = \<lparr>clock = 13, fires_at = Some 23, world = s4\<rparr>"
    using p3 by (simp add: second_passes_fire s4_def)
  have w22: "(second_passes env ^^ 9) \<lparr>clock = 13, fires_at = Some 23, world = s4\<rparr>
               = \<lparr>clock = 22, fires_at = Some 23, world = s4\<rparr>"
    by (simp add: seconds_pass_idle [where f = 23])
  have "(second_passes env ^^ 22) (at_start s)
          = (second_passes env ^^ 9) (second_passes env (second_passes env (second_passes env
              ((second_passes env ^^ 9) (second_passes env (at_start s))))))"
  proof -
    have "(22::nat) = 9 + (Suc 0 + (Suc 0 + (Suc 0 + (9 + Suc 0))))" by simp
    then show ?thesis by (simp only: funpow_add comp_apply funpow.simps id_apply)
  qed
  then have "(second_passes env ^^ 22) (at_start s)
               = \<lparr>clock = 22, fires_at = Some 23, world = s4\<rparr>"
    by (simp only: w1 w10 w11 w12 w13 w22)
  then show ?thesis
    by (simp add: p4)
qed

theorem after_22_seconds_witness:
  "\<exists>s. main_startup [] gst_init_returns all_ok (boot\<lparr>phase_mode := 3\<rparr>) = Inr s \<and>
     phase (world ((second_passes (\<lambda>t. if t = 12 then parse_fails else all_ok) ^^ 22)
              (at_start s))) = PLAYING \<and>
     sint (state_tick (world ((second_passes (\<lambda>t. if t = 12 then parse_fails else all_ok) ^^ 22)
              (at_start s)))) = 4"
proof -
  obtain s where s: "main_startup [] gst_init_returns all_ok (boot\<lparr>phase_mode := 3\<rparr>) = Inr s"
    using all_ok_enters_loop by blast
  show ?thesis
    using after_22_seconds [OF s, of "\<lambda>t. if t = 12 then parse_fails else all_ok"] s
    by (auto simp: Let_def)
qed

section \<open>The command line\<close>

lemma stoi_samples:
  "stoi ''5'' = Inr 5" "stoi ''3'' = Inr 3" "stoi ''4'' = Inr 4" "stoi ''abc'' = Inl Invalid_argument"
  by (simp_all add: stoi_def is_space_def is_digit_def Let_def)

text \<open>A value in \<open>phase_mode\<close> other than the one the scan started with was parsed from an argument.\<close>

lemma parse_args_value:
  "parse_args pm args = Parsed n \<Longrightarrow>
   n = pm \<or> (\<exists>pre v rest. args = pre @ ''--phase'' # v # rest \<and> stoi v = Inr n)"
proof (induction pm args rule: parse_args.induct)
  case (1 pm)
  then show ?case by simp
next
  case (2 pm arg rest)
  show ?case
  proof (cases "arg = ''--phase'' \<and> rest \<noteq> []")
    case True
    then obtain v rest' where rest: "rest = v # rest'"
      by (cases rest) auto
    from "2.prems" True obtain k where k: "stoi v = Inr k" "parse_args k rest' = Parsed n"
      by (auto simp: rest split: sum.splits)
    from "2.IH"(1) [of k] True k rest "2.prems"
    have "n = k \<or> (\<exists>pre v' rest''. rest' = pre @ ''--phase'' # v' # rest'' \<and> stoi v' = Inr n)"
      by (auto split: if_splits)
    then show ?thesis
    proof
      assume "n = k"
      with k True rest have "arg # rest = [] @ ''--phase'' # v # rest' \<and> stoi v = Inr n"
        by simp
      then show ?thesis by blast
    next
      assume "\<exists>pre v' rest''. rest' = pre @ ''--phase'' # v' # rest'' \<and> stoi v' = Inr n"
      then obtain pre v' rest'' where "rest' = pre @ ''--phase'' # v' # rest''" "stoi v' = Inr n"
        by blast
      then have "arg # rest = (arg # v # pre) @ ''--phase'' # v' # rest'' \<and> stoi v' = Inr n"
        by (simp add: rest)
      then show ?thesis by blast
    qed
  next
    case False
    with "2.prems" have "parse_args pm rest = Parsed n" "\<not> (arg = ''--help'' \<or> arg = ''-h'')"
      by (auto split: if_splits)
    with "2.IH"(2) False
    have "n = pm \<or> (\<exists>pre v rest'. rest = pre @ ''--phase'' # v # rest' \<and> stoi v = Inr n)"
      by blast
    then show ?thesis
    proof
      assume "n = pm" then show ?thesis by simp
    next
      assume "\<exists>pre v rest'. rest = pre @ ''--phase'' # v # rest' \<and> stoi v = Inr n"
      then obtain pre v rest' where "rest = pre @ ''--phase'' # v # rest'" "stoi v = Inr n"
        by blast
      then have "arg # rest = (arg # pre) @ ''--phase'' # v # rest' \<and> stoi v = Inr n"
        by simp
      then show ?thesis by blast
    qed
  qed
qed

text \<open>A token that is none of the three options, where the scan reads a token, is skipped.\<close>

lemma parse_args_skip:
  "\<not> known u \<Longrightarrow> pre = [] \<or> last pre \<noteq> ''--phase'' \<Longrightarrow>
   parse_args pm (pre @ u # rest) = parse_args pm (pre @ rest)"
proof (induction pm pre rule: parse_args.induct)
  case (1 pm)
  then show ?case by (simp add: known_def)
next
  case (2 pm arg pre)
  show ?case
  proof (cases "arg = ''--phase''")
    case True
    with "2.prems" obtain v pre' where pre: "pre = v # pre'"
      by (cases pre) auto
    have last: "pre' = [] \<or> last pre' \<noteq> ''--phase''"
      using "2.prems"(2) by (auto simp: pre split: if_splits)
    show ?thesis
    proof (cases "stoi v")
      case (Inl e)
      then show ?thesis by (simp add: True pre)
    next
      case (Inr k)
      have "parse_args k (pre' @ u # rest) = parse_args k (pre' @ rest)"
        using "2.IH"(1) [of k] "2.prems"(1) last True pre Inr by simp
      then show ?thesis by (simp add: True pre Inr)
    qed
  next
    case False
    have last: "pre = [] \<or> last pre \<noteq> ''--phase''"
      using "2.prems"(2) by (auto split: if_splits)
    show ?thesis
    proof (cases "arg = ''--help'' \<or> arg = ''-h''")
      case True
      then show ?thesis by simp
    next
      case notHelp: False
      have "parse_args pm (pre @ u # rest) = parse_args pm (pre @ rest)"
        using "2.IH"(2) notHelp False "2.prems"(1) last by simp
      then show ?thesis using False notHelp by simp
    qed
  qed
qed

text \<open>An option \<open>--phase\<close> that is the last argument is skipped.\<close>

lemma parse_args_trailing:
  "pre = [] \<or> last pre \<noteq> ''--phase'' \<Longrightarrow>
   parse_args pm (pre @ [''--phase'']) = parse_args pm pre"
proof (induction pm pre rule: parse_args.induct)
  case (1 pm)
  then show ?case by simp
next
  case (2 pm arg pre)
  show ?case
  proof (cases "arg = ''--phase''")
    case True
    with "2.prems" obtain v pre' where pre: "pre = v # pre'"
      by (cases pre) auto
    have last: "pre' = [] \<or> last pre' \<noteq> ''--phase''"
      using "2.prems" by (auto simp: pre split: if_splits)
    show ?thesis
    proof (cases "stoi v")
      case (Inl e)
      then show ?thesis by (simp add: True pre)
    next
      case (Inr k)
      have "parse_args k (pre' @ [''--phase'']) = parse_args k pre'"
        using "2.IH"(1) [of k] last True pre Inr by simp
      then show ?thesis by (simp add: True pre Inr)
    qed
  next
    case False
    have last: "pre = [] \<or> last pre \<noteq> ''--phase''"
      using "2.prems" by (auto split: if_splits)
    show ?thesis
    proof (cases "arg = ''--help'' \<or> arg = ''-h''")
      case True
      then show ?thesis by simp
    next
      case notHelp: False
      have "parse_args pm (pre @ [''--phase'']) = parse_args pm pre"
        using "2.IH"(2) notHelp False last by simp
      then show ?thesis using False notHelp by simp
    qed
  qed
qed

lemma parse_args_unknown:
  "\<forall>a\<in>set us. \<not> known a \<Longrightarrow> parse_args pm us = Parsed pm"
  by (induction us) (auto simp: known_def)

lemma parse_args_threw:
  "parse_args pm args = Threw e \<Longrightarrow>
   \<exists>pre v rest. args = pre @ ''--phase'' # v # rest \<and> stoi v = Inl e"
proof (induction pm args rule: parse_args.induct)
  case (1 pm)
  then show ?case by simp
next
  case (2 pm arg rest)
  show ?case
  proof (cases "arg = ''--phase'' \<and> rest \<noteq> []")
    case True
    then obtain v rest' where rest: "rest = v # rest'"
      by (cases rest) auto
    show ?thesis
    proof (cases "stoi v")
      case (Inl e')
      with "2.prems" True rest have "arg # rest = [] @ ''--phase'' # v # rest' \<and> stoi v = Inl e"
        by auto
      then show ?thesis by blast
    next
      case (Inr k)
      with "2.prems" True rest have "parse_args k rest' = Threw e"
        by auto
      with "2.IH"(1) [of k] True rest Inr
      obtain pre v' rest'' where "rest' = pre @ ''--phase'' # v' # rest''" "stoi v' = Inl e"
        by auto
      then have "arg # rest = (arg # v # pre) @ ''--phase'' # v' # rest'' \<and> stoi v' = Inl e"
        by (simp add: rest)
      then show ?thesis by blast
    qed
  next
    case False
    with "2.prems" have "parse_args pm rest = Threw e" "\<not> (arg = ''--help'' \<or> arg = ''-h'')"
      by (auto split: if_splits)
    with "2.IH"(2) False
    obtain pre v rest' where "rest = pre @ ''--phase'' # v # rest'" "stoi v = Inl e"
      by blast
    then have "arg # rest = (arg # pre) @ ''--phase'' # v # rest' \<and> stoi v = Inl e"
      by simp
    then show ?thesis by blast
  qed
qed

text \<open>What the pipeline builder does to the state.\<close>

lemma link_effect:
  "link_tee_to_queue_and_keep_pad po pipe s =
     (link_result po (next_handle s),
      s\<lparr>next_handle := next_handle s + link_used po,
        trace := trace s @ link_events po pipe (next_handle s)\<rparr>)"
  by (simp add: link_tee_to_queue_and_keep_pad_def link_result_def link_used_def link_events_def
      Let_def emit_def)

lemma emit_if: "(if c then emit es s else s) = emit (if c then es else []) s"
  by (simp add: emit_def)

lemma emit_emit: "emit es (emit fs s) = emit (fs @ es) s"
  by (simp add: emit_def)

lemma create_effect_builds:
  assumes "parse_ok b" "tee_found b" "branch_elements_ok b"
  shows "create_pipeline b s =
     (Some (next_handle s),
      s\<lparr>tee_req_pad_udp := link_result (tee_udp b) (Suc (next_handle s)),
        tee_req_pad_fps := link_result (tee_fps b) (Suc (next_handle s) + link_used (tee_udp b)),
        next_handle := Suc (next_handle s + link_used (tee_udp b) + link_used (tee_fps b)),
        trace := trace s @ [ParseLaunch (Some (next_handle s)), BusAddWatch (next_handle s)]
                   @ branch_events b (next_handle s)\<rparr>)"
  using assms
  by (simp add: create_pipeline_def link_effect emit_if Let_def split del: if_split)
     (simp add: emit_def branch_events_def split del: if_split)

lemma create_effect:
  "create_pipeline b s =
     (if builds b then Some (next_handle s) else None,
      s\<lparr>tee_req_pad_udp := (if builds b then link_result (tee_udp b) (Suc (next_handle s))
                             else None),
        tee_req_pad_fps := (if builds b
                             then link_result (tee_fps b)
                                    (Suc (next_handle s) + link_used (tee_udp b))
                             else None),
        next_handle := next_handle s + create_used b,
        trace := trace s @ create_events b (next_handle s)\<rparr>)"
proof (cases "builds b")
  case True
  then have ok: "parse_ok b" "tee_found b" "branch_elements_ok b"
    by (simp_all add: builds_def)
  show ?thesis
    by (simp add: create_effect_builds [OF ok] True ok create_events_def create_used_def)
next
  case False
  then show ?thesis
    by (auto simp: create_pipeline_def create_events_def create_used_def builds_def Let_def
        emit_def)
qed

lemma main_startup_exits:
  "gi args = Some c \<Longrightarrow> main_startup args gi b s = Inl (Exited c, emit [GstInit args] s)"
  by (simp add: main_startup_def)

lemma main_startup_trace:
  "main_startup args gi b s = Inl (e, s') \<or> main_startup args gi b s = Inr s' \<Longrightarrow>
   GstInit args \<in> set (trace s')"
  by (auto simp: main_startup_def create_effect Let_def emit_def arm_next_state_timer_def
      split: if_splits option.splits)

text \<open>After arguments whose scan reaches the end, a closing \<open>--phase v\<close> decides.\<close>

lemma parse_args_last:
  "parse_args pm pre = Parsed k \<Longrightarrow> pre = [] \<or> last pre \<noteq> ''--phase'' \<Longrightarrow>
   parse_args pm (pre @ [''--phase'', v]) = (case stoi v of Inl e \<Rightarrow> Threw e | Inr n \<Rightarrow> Parsed n)"
proof (induction pm pre rule: parse_args.induct)
  case (1 pm)
  then show ?case by (simp split: sum.splits)
next
  case (2 pm arg pre)
  from "2.prems"(1) have notHelp: "\<not> (arg = ''--help'' \<or> arg = ''-h'')"
    by (auto split: if_splits)
  show ?case
  proof (cases "arg = ''--phase''")
    case True
    with "2.prems" obtain w pre' where pre: "pre = w # pre'"
      by (cases pre) auto
    have last: "pre' = [] \<or> last pre' \<noteq> ''--phase''"
      using "2.prems"(2) by (auto simp: pre split: if_splits)
    from "2.prems"(1) True pre obtain j where j: "stoi w = Inr j" "parse_args j pre' = Parsed k"
      by (auto split: sum.splits)
    have "parse_args j (pre' @ [''--phase'', v])
            = (case stoi v of Inl e \<Rightarrow> Threw e | Inr n \<Rightarrow> Parsed n)"
      using "2.IH"(1) [of j] True pre j last by simp
    then show ?thesis by (simp add: True pre j)
  next
    case False
    have last: "pre = [] \<or> last pre \<noteq> ''--phase''"
      using "2.prems"(2) by (auto split: if_splits)
    from "2.prems"(1) False notHelp have "parse_args pm pre = Parsed k"
      by simp
    with "2.IH"(2) notHelp False last
    have "parse_args pm (pre @ [''--phase'', v])
            = (case stoi v of Inl e \<Rightarrow> Threw e | Inr n \<Rightarrow> Parsed n)"
      by simp
    then show ?thesis using False notHelp by simp
  qed
qed

text \<open>
  Claim C8 as stated fails: with \<open>--phase 5 --help\<close> the value parses to 5, and the
  program prints the help text and returns 0.
\<close>

theorem phase_5_help_returns_0:
  "stoi ''5'' = Inr 5 \<and>
   main [''--phase'', ''5'', ''--help''] gst_init_returns all_ok []
     = Some (Returned 0, emit [Log ''Usage: ''] boot)"
  by (simp add: main_def stoi_samples)

text \<open>
  Claim C8, amended. When the scan of the arguments reaches its end (it reads no
  \<open>-h\<close>/\<open>--help\<close> and no \<open>std::stoi\<close> throws) and leaves in \<open>phase_mode\<close> a number other
  than 3 and 4, \<open>main\<close> returns -1 at once: all it has done is to write the error line, so
  \<open>gst_init\<close> was not called and no pipeline was built, whatever the engine would have
  answered. The number left in \<open>phase_mode\<close> is the one the last \<open>--phase\<close> option parses
  to: this is so for \<open>--phase v\<close> after any arguments whose scan reaches the end, and for
  \<open>--phase v\<close> alone.
\<close>

theorem invalid_phase_exits_early:
  "(parse_args (phase_mode boot) args = Parsed n \<and> n \<noteq> 3 \<and> n \<noteq> 4 \<longrightarrow>
      (\<exists>s. main args gi b evs = Some (Returned (- 1), s) \<and> (- 1 :: int) \<noteq> 0
           \<and> trace s = [Log ''[ERROR] --phase must be 3 or 4'']
           \<and> (\<forall>a. GstInit a \<notin> set (trace s)) \<and> (\<forall>r. ParseLaunch r \<notin> set (trace s))
           \<and> pipeline s = None))
   \<and> (parse_args (phase_mode boot) pre = Parsed k \<and> (pre = [] \<or> last pre \<noteq> ''--phase'') \<and>
        stoi v = Inr n \<and> n \<noteq> 3 \<and> n \<noteq> 4 \<longrightarrow>
        (\<exists>s. main (pre @ [''--phase'', v]) gi b evs = Some (Returned (- 1), s)
             \<and> trace s = [Log ''[ERROR] --phase must be 3 or 4'']))
   \<and> (stoi v = Inr n \<and> n \<noteq> 3 \<and> n \<noteq> 4 \<longrightarrow>
        parse_args (phase_mode boot) [''--phase'', v] = Parsed n)"
proof (intro conjI impI)
  assume a: "parse_args (phase_mode boot) args = Parsed n \<and> n \<noteq> 3 \<and> n \<noteq> 4"
  then have "main args gi b evs
      = Some (Returned (- 1), emit [Log ''[ERROR] --phase must be 3 or 4''] (boot\<lparr>phase_mode := n\<rparr>))"
    by (simp add: main_def Let_def)
  then show "\<exists>s. main args gi b evs = Some (Returned (- 1), s) \<and> (- 1 :: int) \<noteq> 0
           \<and> trace s = [Log ''[ERROR] --phase must be 3 or 4'']
           \<and> (\<forall>a. GstInit a \<notin> set (trace s)) \<and> (\<forall>r. ParseLaunch r \<notin> set (trace s))
           \<and> pipeline s = None"
    by (simp add: emit_def boot_def)
next
  assume a: "parse_args (phase_mode boot) pre = Parsed k \<and> (pre = [] \<or> last pre \<noteq> ''--phase'') \<and>
        stoi v = Inr n \<and> n \<noteq> 3 \<and> n \<noteq> 4"
  then have "parse_args (phase_mode boot) (pre @ [''--phase'', v]) = Parsed n"
    using parse_args_last [of "phase_mode boot" pre k v] by simp
  with a have "main (pre @ [''--phase'', v]) gi b evs
      = Some (Returned (- 1), emit [Log ''[ERROR] --phase must be 3 or 4''] (boot\<lparr>phase_mode := n\<rparr>))"
    by (simp add: main_def Let_def)
  then show "\<exists>s. main (pre @ [''--phase'', v]) gi b evs = Some (Returned (- 1), s)
             \<and> trace s = [Log ''[ERROR] --phase must be 3 or 4'']"
    by (simp add: emit_def boot_def)
next
  assume "stoi v = Inr n \<and> n \<noteq> 3 \<and> n \<noteq> 4"
  then show "parse_args (phase_mode boot) [''--phase'', v] = Parsed n"
    by simp
qed

theorem invalid_phase_exits_early_witness:
  "parse_args (phase_mode boot) [''--phase'', ''5''] = Parsed 5 \<and> (5 :: int) \<noteq> 3 \<and> (5 :: int) \<noteq> 4
   \<and> (\<exists>s. main [''--phase'', ''5''] gst_init_returns all_ok [Sigint] = Some (Returned (- 1), s)
          \<and> trace s = [Log ''[ERROR] --phase must be 3 or 4''])
   \<and> parse_args (phase_mode boot) [''--phase'', ''4'', ''-v''] = Parsed 4
   \<and> (\<exists>s. main ([''--phase'', ''4'', ''-v''] @ [''--phase'', ''5'']) gst_init_returns all_ok [Sigint]
            = Some (Returned (- 1), s)
          \<and> trace s = [Log ''[ERROR] --phase must be 3 or 4''])"
proof -
  have p: "parse_args (phase_mode boot) [''--phase'', ''5''] = Parsed 5"
    by (simp add: stoi_samples)
  have q: "parse_args (phase_mode boot) [''--phase'', ''4'', ''-v''] = Parsed 4"
    by (simp add: stoi_samples)
  have l: "last [''--phase'', ''4'', ''-v''] \<noteq> ''--phase''"
    by simp
  have five: "(5 :: int) \<noteq> 3" "(5 :: int) \<noteq> 4"
    by simp_all
  from invalid_phase_exits_early
    [of "[''--phase'', ''5'']" 5 gst_init_returns all_ok "[Sigint]" "[]" 3 "''5''"]
    p five
  have 1: "\<exists>s. main [''--phase'', ''5''] gst_init_returns all_ok [Sigint] = Some (Returned (- 1), s)
          \<and> trace s = [Log ''[ERROR] --phase must be 3 or 4'']"
    by blast
  from invalid_phase_exits_early
    [of "[]" 5 gst_init_returns all_ok "[Sigint]" "[''--phase'', ''4'', ''-v'']" 4 "''5''"]
    q l stoi_samples(1) five
  have 2: "\<exists>s. main ([''--phase'', ''4'', ''-v''] @ [''--phase'', ''5'']) gst_init_returns all_ok [Sigint]
            = Some (Returned (- 1), s)
          \<and> trace s = [Log ''[ERROR] --phase must be 3 or 4'']"
    by blast
  from p q 1 2 show ?thesis by simp
qed

text \<open>Arguments that are none of the three options, with or without a closing \<open>--phase\<close>.\<close>

lemma unknown_line:
  assumes "\<forall>a\<in>set us. \<not> known a" "line = us \<or> line = us @ [''--phase'']"
  shows "parse_args (phase_mode boot) line = Parsed 3"
proof -
  from assms(1) have "us = [] \<or> last us \<noteq> ''--phase''"
    by (cases us rule: rev_cases) (auto simp: known_def)
  from parse_args_trailing [OF this] assms show ?thesis
    by (auto simp: parse_args_unknown boot_def)
qed

lemma boot_mode: "boot\<lparr>phase_mode := 3\<rparr> = boot" "phase_mode boot = 3"
  by (simp_all add: boot_def)

text \<open>
  Claim C10 as stated fails: \<open>main\<close> passes its whole command line on to \<open>gst_init\<close>, and a
  token that the argument loop skips can be an option of GStreamer. With \<open>gst_init\<close> as
  GStreamer documents it, \<open>--gst-debug-level\<close> without its value ends the process with
  status 1 and \<open>--gst-version\<close> ends it with status 0, before any pipeline is built,
  whereas without arguments the program runs until it is interrupted.
\<close>

theorem gst_option_not_ignored:
  "\<not> known ''--gst-debug-level'' \<and> \<not> known ''--gst-version''
   \<and> parse_args (phase_mode boot) [''--gst-debug-level''] = Parsed 3
   \<and> main [''--gst-debug-level''] gst_init_options all_ok [Sigint]
       = Some (Exited 1, emit [GstInit [''--gst-debug-level'']] boot)
   \<and> main [''--gst-version''] gst_init_options all_ok [Sigint]
       = Some (Exited 0, emit [GstInit [''--gst-version'']] boot)
   \<and> (\<exists>s1. main_startup [] gst_init_options all_ok boot = Inr s1
          \<and> main [] gst_init_options all_ok [Sigint]
              = Some (Returned 0, main_shutdown (dispatch state_machine_cb bus_cb Sigint s1)))"
proof -
  have k: "\<not> known ''--gst-debug-level''" "\<not> known ''--gst-version''"
    by (simp_all add: known_def)
  have p: "parse_args (phase_mode boot) [''--gst-debug-level''] = Parsed 3"
    "parse_args (phase_mode boot) [''--gst-version''] = Parsed 3"
    "parse_args (phase_mode boot) [] = Parsed 3"
    by (simp_all add: boot_def)
  have level: "main [''--gst-debug-level''] gst_init_options all_ok [Sigint]
       = Some (Exited 1, emit [GstInit [''--gst-debug-level'']] boot)"
    by (simp add: main_def p boot_mode main_startup_exits gst_init_options_def)
  have version: "main [''--gst-version''] gst_init_options all_ok [Sigint]
       = Some (Exited 0, emit [GstInit [''--gst-version'']] boot)"
    by (simp add: main_def p boot_mode main_startup_exits gst_init_options_def)
  have none: "gst_init_options [] = None"
    by (simp add: gst_init_options_def)
  obtain s1 where s1: "main_startup [] gst_init_options all_ok boot = Inr s1"
    using main_startup_enters_loop [of gst_init_options "[]", OF none all_ok_simps] by blast
  have loop: "main_loop s1"
    using main_startup_Inr [OF s1] by simp
  have "main [] gst_init_options all_ok [Sigint]
          = Some (Returned 0, main_shutdown (dispatch state_machine_cb bus_cb Sigint s1))"
    by (simp add: main_def p boot_mode s1 loop handle_sigint_def dispatch_def)
  with s1 have run: "\<exists>s1. main_startup [] gst_init_options all_ok boot = Inr s1
          \<and> main [] gst_init_options all_ok [Sigint]
              = Some (Returned 0, main_shutdown (dispatch state_machine_cb bus_cb Sigint s1))"
    by blast
  from k p(1) level version run show ?thesis by simp
qed

text \<open>
  Claim C10, amended. The argument loop of \<open>main\<close> skips a token that is none of \<open>-h\<close>,
  \<open>--help\<close>, \<open>--phase\<close>, where it reads a token, and it skips \<open>--phase\<close> as the last
  argument; and \<open>main\<close> returns a non-zero value on account of its arguments, that is
  without having called \<open>gst_init\<close>, only if some \<open>--phase\<close> option had a value that parsed
  to a number other than 3 and 4. So for a command line of such tokens, with or without
  a closing \<open>--phase\<close>, the loop leaves the default 3-phase mode and \<open>main\<close> goes on to
  \<open>gst_init\<close>, which receives the whole command line: if \<open>gst_init\<close> ends the process, the
  program has done nothing else, and if it returns and the pipeline builds, the program
  enters its main loop in 3-phase mode and returns 0 when the loop does.
\<close>

theorem lenient_command_line:
  "(main args gi b evs = Some (Returned c, s) \<and> c \<noteq> 0 \<and> (\<forall>a. GstInit a \<notin> set (trace s)) \<longrightarrow>
      (\<exists>pre v rest n. args = pre @ ''--phase'' # v # rest \<and> stoi v = Inr n \<and> n \<noteq> 3 \<and> n \<noteq> 4))
   \<and> (\<not> known u \<and> (pre = [] \<or> last pre \<noteq> ''--phase'') \<longrightarrow>
        parse_args pm (pre @ u # rest) = parse_args pm (pre @ rest))
   \<and> (pre = [] \<or> last pre \<noteq> ''--phase'' \<longrightarrow>
        parse_args pm (pre @ [''--phase'']) = parse_args pm pre)
   \<and> ((\<forall>a\<in>set us. \<not> known a) \<and> (line = us \<or> line = us @ [''--phase'']) \<longrightarrow>
        parse_args (phase_mode boot) line = Parsed 3
        \<and> (\<forall>x. gi line = Some x \<longrightarrow>
              main line gi b evs = Some (Exited x, emit [GstInit line] boot))
        \<and> (gi line = None \<and> builds b \<longrightarrow>
              (\<exists>s1. main_startup line gi b boot = Inr s1 \<and> phase_mode s1 = 3
                  \<and> GstInit line \<in> set (trace s1)
                  \<and> main line gi b evs
                      = map_option (\<lambda>s2. (Returned 0, main_shutdown s2))
                          (g_main_loop_run state_machine_cb bus_cb evs s1))))"
proof (intro conjI impI allI)
  assume a: "main args gi b evs = Some (Returned c, s) \<and> c \<noteq> 0 \<and> (\<forall>a. GstInit a \<notin> set (trace s))"
  show "\<exists>pre v rest n. args = pre @ ''--phase'' # v # rest \<and> stoi v = Inr n \<and> n \<noteq> 3 \<and> n \<noteq> 4"
  proof (cases "parse_args (phase_mode boot) args")
    case Help
    with a show ?thesis by (auto simp: main_def)
  next
    case (Threw e)
    with a show ?thesis by (auto simp: main_def)
  next
    case (Parsed n)
    have "n \<noteq> 3 \<and> n \<noteq> 4"
    proof (rule ccontr)
      assume "\<not> (n \<noteq> 3 \<and> n \<noteq> 4)"
      then have valid: "n = 3 \<or> n = 4" by blast
      show False
      proof (cases "main_startup args gi b (boot\<lparr>phase_mode := n\<rparr>)")
        case (Inl r)
        with a Parsed valid have "r = (Returned c, s)" by (auto simp: main_def)
        with main_startup_trace [of args gi b _ "Returned c" s] Inl a show False by blast
      next
        case (Inr s1)
        with a Parsed valid show False
          by (auto simp: main_def split: option.splits)
      qed
    qed
    moreover from this parse_args_value [OF Parsed]
    have "\<exists>pre v rest. args = pre @ ''--phase'' # v # rest \<and> stoi v = Inr n"
      by (auto simp: boot_def)
    ultimately show ?thesis by blast
  qed
next
  assume "\<not> known u \<and> (pre = [] \<or> last pre \<noteq> ''--phase'')"
  then show "parse_args pm (pre @ u # rest) = parse_args pm (pre @ rest)"
    by (simp add: parse_args_skip)
next
  assume "pre = [] \<or> last pre \<noteq> ''--phase''"
  then show "parse_args pm (pre @ [''--phase'']) = parse_args pm pre"
    by (rule parse_args_trailing)
next
  assume "(\<forall>a\<in>set us. \<not> known a) \<and> (line = us \<or> line = us @ [''--phase''])"
  then show "parse_args (phase_mode boot) line = Parsed 3"
    using unknown_line [of us line] by blast
next
  fix x
  assume "(\<forall>a\<in>set us. \<not> known a) \<and> (line = us \<or> line = us @ [''--phase''])"
  then have p: "parse_args 3 line = Parsed 3"
    using unknown_line [of us line] by (simp add: boot_mode)
  assume "gi line = Some x"
  then show "main line gi b evs = Some (Exited x, emit [GstInit line] boot)"
    by (simp add: main_def p boot_mode main_startup_exits)
next
  assume "(\<forall>a\<in>set us. \<not> known a) \<and> (line = us \<or> line = us @ [''--phase''])"
  then have p: "parse_args 3 line = Parsed 3"
    using unknown_line [of us line] by (simp add: boot_mode)
  assume r: "gi line = None \<and> builds b"
  then obtain s1 where s1: "main_startup line gi b boot = Inr s1"
    using main_startup_enters_loop [of gi line b boot] by (auto simp: builds_def)
  have "phase_mode s1 = 3"
    using main_startup_Inr [OF s1] by (simp add: boot_def)
  moreover have "GstInit line \<in> set (trace s1)"
    using main_startup_trace [of line gi b boot _ s1] s1 by blast
  moreover have "main line gi b evs
                    = map_option (\<lambda>s2. (Returned 0, main_shutdown s2))
                        (g_main_loop_run state_machine_cb bus_cb evs s1)"
    by (simp add: main_def p boot_mode s1 split: option.splits)
  ultimately show "\<exists>s1. main_startup line gi b boot = Inr s1 \<and> phase_mode s1 = 3
                \<and> GstInit line \<in> set (trace s1)
                \<and> main line gi b evs
                    = map_option (\<lambda>s2. (Returned 0, main_shutdown s2))
                        (g_main_loop_run state_machine_cb bus_cb evs s1)"
    using s1 by blast
qed

theorem lenient_command_line_witness:
  "\<not> known ''--verbose'' \<and> last [''--phase'', ''4''] \<noteq> ''--phase''
   \<and> parse_args 3 ([''--phase'', ''4''] @ ''--verbose'' # [''x''])
       = parse_args 3 ([''--phase'', ''4''] @ [''x''])
   \<and> parse_args 3 ([''--phase'', ''4''] @ [''--phase'']) = parse_args 3 [''--phase'', ''4'']
   \<and> \<not> known ''x'' \<and> \<not> known ''--gst-version''
   \<and> parse_args (phase_mode boot) ([''x'', ''--gst-version''] @ [''--phase'']) = Parsed 3
   \<and> gst_init_options ([''x'', ''--gst-version''] @ [''--phase'']) = Some 0
   \<and> main ([''x'', ''--gst-version''] @ [''--phase'']) gst_init_options all_ok [Sigint]
       = Some (Exited 0, emit [GstInit ([''x'', ''--gst-version''] @ [''--phase''])] boot)
   \<and> gst_init_returns ([''x'', ''--gst-version''] @ [''--phase'']) = None \<and> builds all_ok
   \<and> (\<exists>s1. main_startup ([''x'', ''--gst-version''] @ [''--phase'']) gst_init_returns all_ok boot
              = Inr s1
          \<and> phase_mode s1 = 3
          \<and> main ([''x'', ''--gst-version''] @ [''--phase'']) gst_init_returns all_ok [Sigint]
              = map_option (\<lambda>s2. (Returned 0, main_shutdown s2))
                  (g_main_loop_run state_machine_cb bus_cb [Sigint] s1))
   \<and> (\<exists>s. main [''--phase'', ''7''] gst_init_returns all_ok [Sigint] = Some (Returned (- 1), s)
          \<and> (\<forall>a. GstInit a \<notin> set (trace s)))
   \<and> (\<exists>pre v rest n. [''--phase'', ''7''] = pre @ ''--phase'' # v # rest \<and> stoi v = Inr n
          \<and> n \<noteq> 3 \<and> n \<noteq> 4)"
proof -
  let ?line = "[''x'', ''--gst-version''] @ [''--phase'']"
  have k: "\<not> known ''--verbose''" "\<not> known ''x''" "\<not> known ''--gst-version''"
    by (simp_all add: known_def)
  have ks: "\<forall>a\<in>set [''x'', ''--gst-version'']. \<not> known a"
    using k by simp
  have l: "last [''--phase'', ''4''] \<noteq> ''--phase''"
    by simp
  have g: "gst_init_options ?line = Some 0" "gst_init_returns ?line = None"
    by (simp_all add: gst_init_options_def gst_init_returns_def)
  have ok: "builds all_ok"
    using all_ok_simps by (simp add: builds_def)
  have seven: "stoi ''7'' = Inr 7"
    by (simp add: stoi_def is_space_def is_digit_def Let_def)
  have d: "\<exists>s. main [''--phase'', ''7''] gst_init_returns all_ok [Sigint] = Some (Returned (- 1), s)
          \<and> (\<forall>a. GstInit a \<notin> set (trace s))"
    by (simp add: main_def seven emit_def boot_def)
  then obtain s7 where s7: "main [''--phase'', ''7''] gst_init_returns all_ok [Sigint]
      = Some (Returned (- 1), s7)" "\<forall>a. GstInit a \<notin> set (trace s7)"
    by blast
  have neg: "(- 1 :: int) \<noteq> 0"
    by simp
  from lenient_command_line
    [where args = "[''--phase'', ''7'']" and gi = gst_init_returns and b = all_ok
       and evs = "[Sigint]" and c = "- 1" and s = s7]
    s7 neg
  have a: "\<exists>pre v rest n. [''--phase'', ''7''] = pre @ ''--phase'' # v # rest \<and> stoi v = Inr n
          \<and> n \<noteq> 3 \<and> n \<noteq> 4"
    by blast
  from lenient_command_line
    [where u = "''--verbose''" and pre = "[''--phase'', ''4'']" and rest = "[''x'']" and pm = 3]
    k l
  have b: "parse_args 3 ([''--phase'', ''4''] @ ''--verbose'' # [''x''])
       = parse_args 3 ([''--phase'', ''4''] @ [''x''])"
    "parse_args 3 ([''--phase'', ''4''] @ [''--phase'']) = parse_args 3 [''--phase'', ''4'']"
    by blast+
  from lenient_command_line
    [where us = "[''x'', ''--gst-version'']" and line = ?line and gi = gst_init_options
       and b = all_ok and evs = "[Sigint]"]
    ks g
  have c: "parse_args (phase_mode boot) ?line = Parsed 3"
    "main ?line gst_init_options all_ok [Sigint] = Some (Exited 0, emit [GstInit ?line] boot)"
    by blast+
  from lenient_command_line
    [where us = "[''x'', ''--gst-version'']" and line = ?line and gi = gst_init_returns
       and b = all_ok and evs = "[Sigint]"]
    ks g ok
  have e: "\<exists>s1. main_startup ?line gst_init_returns all_ok boot = Inr s1
          \<and> phase_mode s1 = 3
          \<and> main ?line gst_init_returns all_ok [Sigint]
              = map_option (\<lambda>s2. (Returned 0, main_shutdown s2))
                  (g_main_loop_run state_machine_cb bus_cb [Sigint] s1)"
    by blast
  from k l a b c d e g ok show ?thesis by blast
qed

section \<open>Stopping\<close>

lemma dispatch_main_loop:
  "main_loop (dispatch state_machine_cb bus_cb e s) = main_loop s"
  by (cases e)
    (simp_all add: dispatch_def state_machine_cb_fields fps_log_cb_def on_handoff_def bus_cb_def
      handle_sigint_def Let_def emit_def split: bus_message.splits)

text \<open>The loop returns at the first SIGINT, and only then.\<close>

lemma g_main_loop_run_quits:
  "main_loop s \<Longrightarrow> Sigint \<in> set evs \<Longrightarrow>
   \<exists>pre post. evs = pre @ Sigint # post \<and> Sigint \<notin> set pre \<and>
     g_main_loop_run state_machine_cb bus_cb evs s
       = Some (snd (handle_sigint (fold (dispatch state_machine_cb bus_cb) pre s)))"
proof (induction evs arbitrary: s)
  case Nil
  then show ?case by simp
next
  case (Cons e evs)
  show ?case
  proof (cases "e = Sigint")
    case True
    with Cons.prems have "e # evs = [] @ Sigint # evs \<and> Sigint \<notin> set [] \<and>
       g_main_loop_run state_machine_cb bus_cb (e # evs) s
         = Some (snd (handle_sigint (fold (dispatch state_machine_cb bus_cb) [] s)))"
      by (simp add: handle_sigint_def)
    then show ?thesis by blast
  next
    case False
    with Cons.prems have "Sigint \<in> set evs" by simp
    moreover have "main_loop (dispatch state_machine_cb bus_cb e s)"
      using Cons.prems by (simp add: dispatch_main_loop)
    ultimately obtain pre post where pp: "evs = pre @ Sigint # post" "Sigint \<notin> set pre"
      "g_main_loop_run state_machine_cb bus_cb evs (dispatch state_machine_cb bus_cb e s)
         = Some (snd (handle_sigint (fold (dispatch state_machine_cb bus_cb) pre
                   (dispatch state_machine_cb bus_cb e s))))"
      using Cons.IH by blast
    with False have "e # evs = (e # pre) @ Sigint # post \<and> Sigint \<notin> set (e # pre) \<and>
       g_main_loop_run state_machine_cb bus_cb (e # evs) s
         = Some (snd (handle_sigint (fold (dispatch state_machine_cb bus_cb) (e # pre) s)))"
      by auto
    then show ?thesis by blast
  qed
qed

lemma g_main_loop_run_waits:
  "Sigint \<notin> set evs \<Longrightarrow> g_main_loop_run state_machine_cb bus_cb evs s = None"
  by (induction evs arbitrary: s) auto

lemma release_tee_pads_effect:
  "release_tee_pads s =
     s\<lparr>tee_req_pad_udp := None, tee_req_pad_fps := None,
       trace := trace s @ map UnrefPad (owned s)\<rparr>"
  by (simp add: release_tee_pads_def owned_def Let_def emit_def split: option.splits)

lemma main_shutdown_trace:
  "trace (main_shutdown s) =
     trace s @ SetState (pipeline s) GST_STATE_NULL # map UnrefPad (owned s)
       @ [UnrefPipeline (pipeline s), MainLoopUnref]"
  by (simp add: main_shutdown_def release_tee_pads_effect Let_def emit_def owned_def)

text \<open>
  Claim C9. When the arguments are accepted, the first pipeline is built and a SIGINT
  arrives while the loop runs, \<open>g_main_loop_run\<close> returns (at the first SIGINT), and
  \<open>main\<close> then does exactly this, in this order: it sets the pipeline to
  \<open>GST_STATE_NULL\<close>, unrefs every pad the two variables still record, unrefs the
  pipeline, unrefs the loop, and returns 0; no pad stays recorded.
\<close>

theorem graceful_stop:
  assumes "parse_args (phase_mode boot) args = Parsed m" and "m = 3 \<or> m = 4"
    and "main_startup args gi b (boot\<lparr>phase_mode := m\<rparr>) = Inr s1"
    and "Sigint \<in> set evs"
  shows "\<exists>pre post s2. evs = pre @ Sigint # post \<and> Sigint \<notin> set pre \<and>
           s2 = snd (handle_sigint (fold (dispatch state_machine_cb bus_cb) pre s1)) \<and>
           g_main_loop_run state_machine_cb bus_cb evs s1 = Some s2 \<and>
           main args gi b evs = Some (Returned 0, main_shutdown s2) \<and>
           trace (main_shutdown s2) =
             trace s2 @ SetState (pipeline s2) GST_STATE_NULL # map UnrefPad (owned s2)
               @ [UnrefPipeline (pipeline s2), MainLoopUnref] \<and>
           owned (main_shutdown s2) = []"
proof -
  have "main_loop s1"
    using main_startup_Inr [OF assms(3)] by simp
  from g_main_loop_run_quits [OF this assms(4)]
  obtain pre post where pp: "evs = pre @ Sigint # post" "Sigint \<notin> set pre"
    "g_main_loop_run state_machine_cb bus_cb evs s1
       = Some (snd (handle_sigint (fold (dispatch state_machine_cb bus_cb) pre s1)))"
    by blast
  let ?s2 = "snd (handle_sigint (fold (dispatch state_machine_cb bus_cb) pre s1))"
  have "main args gi b evs = Some (Returned 0, main_shutdown ?s2)"
    using assms(1,2,3) pp(3) by (auto simp: main_def)
  moreover have "owned (main_shutdown ?s2) = []"
    by (simp add: main_shutdown_def release_tee_pads_effect Let_def emit_def owned_def)
  ultimately show ?thesis
    using pp main_shutdown_trace [of ?s2] by blast
qed

theorem graceful_stop_witness:
  "parse_args (phase_mode boot) [] = Parsed 3 \<and> Sigint \<in> set [StateTimer all_ok, Handoff, Sigint]
   \<and> (\<exists>s1. main_startup [] gst_init_returns all_ok (boot\<lparr>phase_mode := 3\<rparr>) = Inr s1)
   \<and> (\<exists>s2. main [] gst_init_returns all_ok [StateTimer all_ok, Handoff, Sigint] = Some (Returned 0, main_shutdown s2)
         \<and> trace (main_shutdown s2) =
             trace s2 @ SetState (pipeline s2) GST_STATE_NULL # map UnrefPad (owned s2)
               @ [UnrefPipeline (pipeline s2), MainLoopUnref])"
proof -
  obtain s1 where s1: "main_startup [] gst_init_returns all_ok (boot\<lparr>phase_mode := 3\<rparr>) = Inr s1"
    using all_ok_enters_loop by blast
  have p: "parse_args (phase_mode boot) [] = Parsed 3"
    by (simp add: boot_def)
  have i: "Sigint \<in> set [StateTimer all_ok, Handoff, Sigint]"
    by simp
  from graceful_stop [OF p _ s1 i] s1 p i show ?thesis
    by blast
qed

section \<open>A rebuild that fails\<close>

text \<open>What the rebuild does to the state.\<close>

lemma set_pipeline_state_effect:
  "set_pipeline_state state name s =
     s\<lparr>current_stage := name,
       trace := trace s @ [Log (''[STATE] -> '' @ name), SetState (pipeline s) state,
                           GetState (pipeline s), Log ''[STATE] set_state ret='']\<rparr>"
  by (simp add: set_pipeline_state_def emit_def)

lemma arm_effect:
  "arm_next_state_timer seconds s =
     s\<lparr>state_timer_id := Some seconds,
       trace := trace s @ (if state_timer_id s \<noteq> None then [SourceRemove] else [])
                  @ [TimeoutAdd seconds State_machine_cb]\<rparr>"
  by (simp add: arm_next_state_timer_def emit_def)

lemma owned_other_fields:
  "owned (s\<lparr>trace := tr\<rparr>) = owned s"
  "owned (s\<lparr>current_stage := st\<rparr>) = owned s"
  "owned (s\<lparr>state_tick := k\<rparr>) = owned s"
  "owned (s\<lparr>phase := p\<rparr>) = owned s"
  "owned (s\<lparr>state_timer_id := t\<rparr>) = owned s"
  "owned (s\<lparr>frame_count := c\<rparr>) = owned s"
  "owned (s\<lparr>last_frame_count := c\<rparr>) = owned s"
  by (simp_all add: owned_def)

lemma recreate_effect:
  "recreate_pipeline b s =
     s\<lparr>current_stage := ''NULL'', phase := NULL_STATE, state_timer_id := Some 1,
       pipeline := (if builds b then Some (next_handle s) else None),
       tee_req_pad_udp := (if builds b then link_result (tee_udp b) (Suc (next_handle s))
                            else None),
       tee_req_pad_fps := (if builds b
                            then link_result (tee_fps b)
                                   (Suc (next_handle s) + link_used (tee_udp b))
                            else None),
       next_handle := next_handle s + create_used b,
       trace := trace s @
         [Log ''[STATE] -> NULL'', SetState (pipeline s) GST_STATE_NULL, GetState (pipeline s),
          Log ''[STATE] set_state ret='']
         @ map UnrefPad (owned s) @ [UnrefPipeline (pipeline s)]
         @ create_events b (next_handle s)
         @ (if state_timer_id s \<noteq> None then [SourceRemove] else [])
         @ [TimeoutAdd 1 State_machine_cb]\<rparr>"
  by (cases "builds b"; cases "state_timer_id s")
    (simp_all add: recreate_pipeline_def set_pipeline_state_effect release_tee_pads_effect
      create_effect arm_effect Let_def emit_def owned_other_fields)

text \<open>
  Claim C2 does not hold of the code. When the rebuild fails (\<open>create_pipeline\<close> returns
  \<open>nullptr\<close>), \<open>state_machine_cb\<close> stores the null pointer in \<open>pipeline\<close>, sets the phase to
  \<open>NULL_STATE\<close> and arms the next timer as after a successful rebuild: the last thing it
  does is \<open>g_timeout_add_seconds(1, ...)\<close>. Nothing is reported beyond the error line
  of \<open>create_pipeline\<close>, and the callback has no path that ends the process.
\<close>

theorem failed_rebuild_arms_timer:
  assumes "phase s = READY \<or> (phase s = PAUSED \<and> phase_mode s \<noteq> 4)" and "\<not> builds b"
  shows "fst (create_pipeline b s') = None
       \<and> pipeline (state_machine_cb b s) = None
       \<and> phase (state_machine_cb b s) = NULL_STATE
       \<and> state_timer_id (state_machine_cb b s) = Some 1
       \<and> last (trace (state_machine_cb b s)) = TimeoutAdd 1 State_machine_cb"
  using assms
  by (auto simp: state_machine_cb_def recreate_effect create_effect Let_def emit_def)

lemma failed_run:
  "(case main [] gst_init_returns all_ok [StateTimer all_ok, StateTimer all_ok, StateTimer parse_fails,
                        StateTimer all_ok, Sigint] of
      Some (Returned c, s) \<Rightarrow> c = 0 \<and> SetState None GST_STATE_PLAYING \<in> set (trace s)
    | _ \<Rightarrow> False)"
  by code_simp

theorem failed_rebuild_arms_timer_witness:
  "\<exists>s1. main_startup [] gst_init_returns all_ok (boot\<lparr>phase_mode := 3\<rparr>) = Inr s1 \<and>
     (let s = fold (dispatch state_machine_cb bus_cb) [StateTimer all_ok, StateTimer all_ok] s1;
          s' = dispatch state_machine_cb bus_cb (StateTimer parse_fails) s
      in phase s = PAUSED \<and> phase_mode s \<noteq> 4 \<and> \<not> builds parse_fails
         \<and> pipeline s' = None \<and> state_timer_id s' = Some 1
         \<and> last (trace s') = TimeoutAdd 1 State_machine_cb)
   \<and> (case main [] gst_init_returns all_ok [StateTimer all_ok, StateTimer all_ok, StateTimer parse_fails,
                          StateTimer all_ok, Sigint] of
        Some (Returned c, s) \<Rightarrow> c = 0 \<and> SetState None GST_STATE_PLAYING \<in> set (trace s)
      | _ \<Rightarrow> False)"
proof -
  obtain s1 where s1: "main_startup [] gst_init_returns all_ok (boot\<lparr>phase_mode := 3\<rparr>) = Inr s1"
    using all_ok_enters_loop by blast
  define s where "s = fold (dispatch state_machine_cb bus_cb) [StateTimer all_ok, StateTimer all_ok] s1"
  have s: "phase s = PAUSED" "phase_mode s \<noteq> 4" "state_timer_id s \<noteq> None"
    using main_startup_Inr [OF s1]
    by (simp_all add: s_def dispatch_def state_machine_cb_fields boot_def)
  have nb: "\<not> builds parse_fails"
    by (simp add: builds_def parse_fails_def)
  from failed_rebuild_arms_timer [of s parse_fails] s nb
  have "pipeline (state_machine_cb parse_fails s) = None
       \<and> state_timer_id (state_machine_cb parse_fails s) = Some 1
       \<and> last (trace (state_machine_cb parse_fails s)) = TimeoutAdd 1 State_machine_cb"
    by blast
  with s nb have "(let s = fold (dispatch state_machine_cb bus_cb) [StateTimer all_ok, StateTimer all_ok] s1;
          s' = dispatch state_machine_cb bus_cb (StateTimer parse_fails) s
      in phase s = PAUSED \<and> phase_mode s \<noteq> 4 \<and> \<not> builds parse_fails
         \<and> pipeline s' = None \<and> state_timer_id s' = Some 1
         \<and> last (trace s') = TimeoutAdd 1 State_machine_cb)"
    unfolding Let_def s_def [symmetric] by (simp add: dispatch_def)
  with s1 failed_run show ?thesis by blast
qed

section \<open>Pads and pipelines in a trace\<close>

text \<open>Reading the events of one call.\<close>

lemma released_append [simp]: "released (xs @ ys) = released xs @ released ys"
  by (simp add: released_def)

lemma requested_append [simp]: "requested q (xs @ ys) = requested q xs @ requested q ys"
  by (simp add: requested_def)

lemma released_Cons:
  "released (e # es) = (case e of UnrefPad p \<Rightarrow> p # released es | _ \<Rightarrow> released es)"
  by (simp add: released_def split: event.splits)

lemma requested_Cons:
  "requested q (e # es) =
     (case e of RequestPad q' (Some p) \<Rightarrow> (if q' = q then p # requested q es else requested q es)
              | _ \<Rightarrow> requested q es)"
  by (simp add: requested_def split: event.splits option.splits)

lemma released_Nil [simp]: "released [] = []"
  by (simp add: released_def)

lemma requested_Nil [simp]: "requested q [] = []"
  by (simp add: requested_def)

lemma released_link_events:
  "released (link_events po pipe n) = (if request_ok po \<and> link_result po n = None then [n] else [])"
  by (simp add: link_events_def link_result_def released_Cons)

lemma requested_link_events:
  "requested q (link_events po pipe n) = (if request_ok po \<and> q = pipe then [n] else [])"
  by (simp add: link_events_def requested_Cons)

lemma released_branch_events:
  "released (branch_events b pipe) =
     released (link_events (tee_udp b) pipe (Suc pipe)) @
     released (link_events (tee_fps b) pipe (Suc pipe + link_used (tee_udp b)))"
  by (simp add: branch_events_def released_Cons)

lemma requested_branch_events:
  "requested q (branch_events b pipe) =
     requested q (link_events (tee_udp b) pipe (Suc pipe)) @
     requested q (link_events (tee_fps b) pipe (Suc pipe + link_used (tee_udp b)))"
  by (simp add: branch_events_def requested_Cons)

lemma released_create_events:
  "released (create_events b n) = (if builds b then released (branch_events b n) else [])"
  by (simp add: create_events_def builds_def released_Cons)

lemma requested_create_events:
  "requested q (create_events b n) = (if builds b then requested q (branch_events b n) else [])"
  by (simp add: create_events_def builds_def requested_Cons)

lemma unref_pipeline_create_events:
  "UnrefPipeline r \<in> set (create_events b n) \<longleftrightarrow> parse_ok b \<and> \<not> builds b \<and> r = Some n"
  by (auto simp: create_events_def branch_events_def link_events_def builds_def)

lemma last_create_events:
  "parse_ok b \<Longrightarrow> \<not> builds b \<Longrightarrow> last (create_events b n) = UnrefPipeline (Some n)"
  by (auto simp: create_events_def builds_def)

section \<open>What create_pipeline returns\<close>

text \<open>
  Claim C3 as stated fails: when the FPS branch does not link (neither its elements to
  each other nor its queue to the tee), \<open>create_pipeline\<close> only logs it; it returns the
  pipeline, does not unref it, and leaves the pad of the UDP branch recorded and
  unreleased.
\<close>

theorem unlinked_branch_still_builds:
  "\<not> link_fps_branch_ok fps_unlinked \<and> \<not> link_ok (tee_fps fps_unlinked) \<and>
   fst (create_pipeline fps_unlinked boot) = Some 0 \<and>
   UnrefPipeline (Some 0) \<notin> set (trace (snd (create_pipeline fps_unlinked boot))) \<and>
   tee_req_pad_udp (snd (create_pipeline fps_unlinked boot)) = Some 1 \<and>
   requested 0 (trace (snd (create_pipeline fps_unlinked boot))) = [1, 2] \<and>
   released (trace (snd (create_pipeline fps_unlinked boot))) = [2]"
  by (simp add: create_effect fps_unlinked_def all_ok_def pad_fine_def pad_unlinked_def
      builds_def branch_elements_ok_def boot_def link_result_def link_used_def
      unref_pipeline_create_events requested_create_events released_create_events
      requested_branch_events released_branch_events requested_link_events released_link_events)

text \<open>
  Claim C3, amended. \<open>create_pipeline\<close> returns \<open>nullptr\<close> exactly when
  \<open>gst_parse_launch\<close> fails, the tee is not found or one of the six branch elements cannot
  be instantiated. It has then requested no pad and records none, and if a pipeline was
  parsed its unref is the last thing the call did. Otherwise the call returns the new
  pipeline without unreffing it, whether or not the branches linked; every pad it
  requested is then either recorded in one of the two variables or was released in the
  call, and none is both.
\<close>

theorem create_pipeline_outcomes:
  fixes b :: build_outcome and s :: app
  defines "s' \<equiv> snd (create_pipeline b s)"
  defines "new \<equiv> create_events b (next_handle s)"
  shows "trace s' = trace s @ new
       \<and> (fst (create_pipeline b s) = None \<longleftrightarrow>
            \<not> (parse_ok b \<and> tee_found b \<and> q_udp_ok b \<and> pay_ok b \<and> udp_ok b \<and> q_fps_ok b \<and>
               id_ok b \<and> fsink_ok b))
       \<and> (fst (create_pipeline b s) = None \<longrightarrow>
            (\<forall>q. requested q new = []) \<and> released new = [] \<and> owned s' = [] \<and>
            (parse_ok b \<longrightarrow> last new = UnrefPipeline (Some (next_handle s))) \<and>
            (\<not> parse_ok b \<longrightarrow> (\<forall>r. UnrefPipeline r \<notin> set new) \<and> ParseLaunch None \<in> set new))
       \<and> (fst (create_pipeline b s) \<noteq> None \<longrightarrow>
            fst (create_pipeline b s) = Some (next_handle s) \<and>
            (\<forall>r. UnrefPipeline r \<notin> set new) \<and>
            set (requested (next_handle s) new) = set (released new) \<union> set (owned s') \<and>
            set (released new) \<inter> set (owned s') = {} \<and>
            distinct (requested (next_handle s) new))"
proof -
  have builds: "builds b \<longleftrightarrow> parse_ok b \<and> tee_found b \<and> q_udp_ok b \<and> pay_ok b \<and> udp_ok b \<and>
      q_fps_ok b \<and> id_ok b \<and> fsink_ok b"
    by (simp add: builds_def branch_elements_ok_def)
  have res: "fst (create_pipeline b s) = (if builds b then Some (next_handle s) else None)"
    by (simp add: create_effect)
  have tr: "trace s' = trace s @ new"
    by (simp add: s'_def new_def create_effect)
  have fail: "(\<forall>q. requested q new = []) \<and> released new = [] \<and> owned s' = [] \<and>
            (parse_ok b \<longrightarrow> last new = UnrefPipeline (Some (next_handle s))) \<and>
            (\<not> parse_ok b \<longrightarrow> (\<forall>r. UnrefPipeline r \<notin> set new) \<and> ParseLaunch None \<in> set new)"
    if "\<not> builds b"
    using that
    by (auto simp: s'_def new_def create_effect owned_def requested_create_events
        released_create_events last_create_events unref_pipeline_create_events)
      (simp add: create_events_def)
  have good: "(\<forall>r. UnrefPipeline r \<notin> set new) \<and>
            set (requested (next_handle s) new) = set (released new) \<union> set (owned s') \<and>
            set (released new) \<inter> set (owned s') = {} \<and>
            distinct (requested (next_handle s) new)"
    if "builds b"
    using that
    by (auto simp: s'_def new_def create_effect owned_def requested_create_events
        released_create_events unref_pipeline_create_events requested_branch_events
        released_branch_events requested_link_events released_link_events link_result_def
        link_used_def split: if_splits)
  show ?thesis
    using tr fail good by (simp add: res builds [symmetric])
qed

theorem create_pipeline_outcomes_witness:
  "\<not> id_ok identity_missing \<and> parse_ok identity_missing
   \<and> fst (create_pipeline identity_missing boot) = None
   \<and> last (create_events identity_missing (next_handle boot)) = UnrefPipeline (Some 0)
   \<and> owned (snd (create_pipeline identity_missing boot)) = []
   \<and> fst (create_pipeline fps_unlinked boot) = Some 0
   \<and> set (requested 0 (create_events fps_unlinked (next_handle boot)))
       = set (released (create_events fps_unlinked (next_handle boot)))
         \<union> set (owned (snd (create_pipeline fps_unlinked boot)))"
proof -
  have a: "\<not> id_ok identity_missing" "parse_ok identity_missing"
    by (simp_all add: identity_missing_def all_ok_def)
  have b: "parse_ok fps_unlinked \<and> tee_found fps_unlinked \<and> q_udp_ok fps_unlinked \<and>
      pay_ok fps_unlinked \<and> udp_ok fps_unlinked \<and> q_fps_ok fps_unlinked \<and>
      id_ok fps_unlinked \<and> fsink_ok fps_unlinked"
    by (simp add: fps_unlinked_def all_ok_def)
  have n: "next_handle boot = 0"
    by (simp add: boot_def)
  from create_pipeline_outcomes [of identity_missing boot] a
  have 1: "fst (create_pipeline identity_missing boot) = None"
    "last (create_events identity_missing (next_handle boot)) = UnrefPipeline (Some 0)"
    "owned (snd (create_pipeline identity_missing boot)) = []"
    by (simp_all add: n)
  from create_pipeline_outcomes [of fps_unlinked boot] b
  have 2: "fst (create_pipeline fps_unlinked boot) = Some 0"
    "set (requested 0 (create_events fps_unlinked (next_handle boot)))
       = set (released (create_events fps_unlinked (next_handle boot)))
         \<union> set (owned (snd (create_pipeline fps_unlinked boot)))"
    by (simp_all add: n)
  from a 1 2 show ?thesis by simp
qed

section \<open>Every pad is released once, before its pipeline\<close>

lemma released_before_unref_snoc:
  "released_before_unref (tr @ [e]) \<longleftrightarrow>
     (\<forall>i<length tr. \<forall>q. tr ! i = UnrefPipeline (Some q) \<longrightarrow>
        set (requested q tr) \<union> set (requested q [e]) \<subseteq> set (released (take i tr))) \<and>
     (\<forall>q. e = UnrefPipeline (Some q) \<longrightarrow> set (requested q tr) \<subseteq> set (released tr))"
  by (simp add: released_before_unref_def All_less_Suc nth_append requested_Cons conj_commute
      cong: conj_cong)

lemma released_before_unref_keeps:
  assumes "released_before_unref tr" and "\<And>q. e \<noteq> UnrefPipeline (Some q)"
    and "\<And>q. UnrefPipeline (Some q) \<in> set tr \<Longrightarrow> requested q [e] = []"
  shows "released_before_unref (tr @ [e])"
  unfolding released_before_unref_snoc
proof (intro conjI allI impI)
  fix i q
  assume i: "i < length tr" and u: "tr ! i = UnrefPipeline (Some q)"
  then have "UnrefPipeline (Some q) \<in> set tr"
    by (metis nth_mem)
  then have "requested q [e] = []"
    by (rule assms(3))
  moreover have "set (requested q tr) \<subseteq> set (released (take i tr))"
    using assms(1) i u by (simp add: released_before_unref_def)
  ultimately show "set (requested q tr) \<union> set (requested q [e]) \<subseteq> set (released (take i tr))"
    by simp
next
  fix q
  assume "e = UnrefPipeline (Some q)"
  with assms(2) show "set (requested q tr) \<subseteq> set (released tr)"
    by blast
qed

lemma accountedI:
  assumes "distinct (released tr)"
    and "\<And>p. p \<in> set (released tr) \<Longrightarrow> p < n"
    and "\<And>p. p \<in> held \<Longrightarrow> p < n"
    and "\<And>p. p \<in> held \<Longrightarrow> p \<notin> set (released tr)"
    and "\<And>q p. p \<in> set (requested q tr) \<Longrightarrow> p \<notin> set (released tr) \<Longrightarrow> live = Some q \<and> p \<in> held"
    and "\<And>q. requested q tr \<noteq> [] \<Longrightarrow> q < n"
    and "\<And>q. UnrefPipeline (Some q) \<in> set tr \<Longrightarrow> q < n"
    and "\<And>q. live = Some q \<Longrightarrow> q < n"
    and "\<And>q. live = Some q \<Longrightarrow> UnrefPipeline (Some q) \<notin> set tr"
    and "released_before_unref tr"
  shows "accounted tr n live held"
  unfolding accounted_def
proof (intro conjI allI impI)
  fix q
  show "set (requested q tr) \<subseteq> set (released tr) \<union> (if live = Some q then held else {})"
    using assms(5) [of _ q] by auto
next
  fix q
  assume "requested q tr \<noteq> [] \<or> UnrefPipeline (Some q) \<in> set tr"
  then show "q < n" using assms(6,7) by blast
qed (use assms in auto)

lemma accountedD:
  assumes "accounted tr n live held"
  shows "distinct (released tr)"
    and "\<And>p. p \<in> set (released tr) \<Longrightarrow> p < n"
    and "\<And>p. p \<in> held \<Longrightarrow> p < n"
    and "\<And>p. p \<in> held \<Longrightarrow> p \<notin> set (released tr)"
    and "\<And>q p. p \<in> set (requested q tr) \<Longrightarrow> p \<notin> set (released tr) \<Longrightarrow> live = Some q \<and> p \<in> held"
    and "\<And>q. requested q tr \<noteq> [] \<Longrightarrow> q < n"
    and "\<And>q. UnrefPipeline (Some q) \<in> set tr \<Longrightarrow> q < n"
    and "\<And>q. live = Some q \<Longrightarrow> q < n"
    and "\<And>q. live = Some q \<Longrightarrow> UnrefPipeline (Some q) \<notin> set tr"
    and "released_before_unref tr"
proof -
  from assms have a:
    "distinct (released tr)" "set (released tr) \<subseteq> {..<n}" "held \<subseteq> {..<n}"
    "held \<inter> set (released tr) = {}"
    "\<forall>q. set (requested q tr) \<subseteq> set (released tr) \<union> (if live = Some q then held else {})"
    "\<forall>q. requested q tr \<noteq> [] \<or> UnrefPipeline (Some q) \<in> set tr \<longrightarrow> q < n"
    "\<forall>q. live = Some q \<longrightarrow> q < n \<and> UnrefPipeline (Some q) \<notin> set tr"
    "released_before_unref tr"
    unfolding accounted_def by blast+
  show "distinct (released tr)" by (fact a(1))
  show "\<And>p. p \<in> set (released tr) \<Longrightarrow> p < n" using a(2) by auto
  show "\<And>p. p \<in> held \<Longrightarrow> p < n" using a(3) by auto
  show "\<And>p. p \<in> held \<Longrightarrow> p \<notin> set (released tr)" using a(4) by auto
  show "\<And>q p. p \<in> set (requested q tr) \<Longrightarrow> p \<notin> set (released tr) \<Longrightarrow> live = Some q \<and> p \<in> held"
  proof -
    fix q p
    assume "p \<in> set (requested q tr)" "p \<notin> set (released tr)"
    with a(5) have "p \<in> (if live = Some q then held else {})" by blast
    then show "live = Some q \<and> p \<in> held" by (auto split: if_splits)
  qed
  show "\<And>q. requested q tr \<noteq> [] \<Longrightarrow> q < n" using a(6) by blast
  show "\<And>q. UnrefPipeline (Some q) \<in> set tr \<Longrightarrow> q < n" using a(6) by blast
  show "\<And>q. live = Some q \<Longrightarrow> q < n" using a(7) by blast
  show "\<And>q. live = Some q \<Longrightarrow> UnrefPipeline (Some q) \<notin> set tr" using a(7) by blast
  show "released_before_unref tr" by (fact a(8))
qed

lemma accounted_empty: "accounted [] 0 None {}"
  by (simp add: accounted_def released_before_unref_def)

lemma accounted_more_handles:
  assumes "accounted tr n live held" and "n \<le> n'"
  shows "accounted tr n' live held"
proof (rule accountedI)
  note d = accountedD [OF assms(1)]
  show "distinct (released tr)" by (fact d(1))
  show "\<And>p. p \<in> set (released tr) \<Longrightarrow> p < n'" using d(2) assms(2) by fastforce
  show "\<And>p. p \<in> held \<Longrightarrow> p < n'" using d(3) assms(2) by fastforce
  show "\<And>p. p \<in> held \<Longrightarrow> p \<notin> set (released tr)" by (fact d(4))
  show "\<And>q p. p \<in> set (requested q tr) \<Longrightarrow> p \<notin> set (released tr) \<Longrightarrow> live = Some q \<and> p \<in> held"
    by (fact d(5))
  show "\<And>q. requested q tr \<noteq> [] \<Longrightarrow> q < n'" using d(6) assms(2) by fastforce
  show "\<And>q. UnrefPipeline (Some q) \<in> set tr \<Longrightarrow> q < n'" using d(7) assms(2) by fastforce
  show "\<And>q. live = Some q \<Longrightarrow> q < n'" using d(8) assms(2) by fastforce
  show "\<And>q. live = Some q \<Longrightarrow> UnrefPipeline (Some q) \<notin> set tr" by (fact d(9))
  show "released_before_unref tr" by (fact d(10))
qed

lemma accounted_other:
  assumes "accounted tr n live held"
    and r: "released [e] = []" and q: "\<And>q. requested q [e] = []"
    and u: "\<And>q. e \<noteq> UnrefPipeline (Some q)"
  shows "accounted (tr @ [e]) n live held"
proof (rule accountedI)
  note d = accountedD [OF assms(1)]
  show "distinct (released (tr @ [e]))" using d(1) r by simp
  show "\<And>p. p \<in> set (released (tr @ [e])) \<Longrightarrow> p < n" using d(2) r by simp
  show "\<And>p. p \<in> held \<Longrightarrow> p < n" by (fact d(3))
  show "\<And>p. p \<in> held \<Longrightarrow> p \<notin> set (released (tr @ [e]))" using d(4) r by simp
  show "\<And>q p. p \<in> set (requested q (tr @ [e])) \<Longrightarrow> p \<notin> set (released (tr @ [e])) \<Longrightarrow>
      live = Some q \<and> p \<in> held"
    using d(5) r q by simp
  show "\<And>q. requested q (tr @ [e]) \<noteq> [] \<Longrightarrow> q < n" using d(6) q by simp
  show "\<And>q. UnrefPipeline (Some q) \<in> set (tr @ [e]) \<Longrightarrow> q < n" using d(7) u by auto
  show "\<And>q. live = Some q \<Longrightarrow> q < n" by (fact d(8))
  show "\<And>q. live = Some q \<Longrightarrow> UnrefPipeline (Some q) \<notin> set (tr @ [e])" using d(9) u by auto
  show "released_before_unref (tr @ [e])"
    using d(10) u q by (intro released_before_unref_keeps) auto
qed

lemma accounted_neutral:
  "neutral es \<Longrightarrow> accounted tr n live held \<Longrightarrow> accounted (tr @ es) n live held"
proof (induction es rule: rev_induct)
  case Nil
  then show ?case by simp
next
  case (snoc e es)
  from snoc.prems(1) have es: "neutral es" and e: "released [e] = []" "\<And>q. requested q [e] = []"
    "\<And>q. e \<noteq> UnrefPipeline (Some q)"
    by (auto simp: neutral_def)
  from accounted_other [OF snoc.IH [OF es snoc.prems(2)] e]
  show ?case by simp
qed

lemma accounted_request:
  assumes "accounted tr n (Some q) held"
  shows "accounted (tr @ [RequestPad q (Some n)]) (Suc n) (Some q) (insert n held)"
proof (rule accountedI)
  note d = accountedD [OF assms(1)]
  let ?e = "RequestPad q (Some n)"
  have r: "released [?e] = []" by (simp add: released_Cons)
  have rq: "requested q' [?e] = (if q' = q then [n] else [])" for q'
    by (simp add: requested_Cons)
  show "distinct (released (tr @ [?e]))" using d(1) r by simp
  show "\<And>p. p \<in> set (released (tr @ [?e])) \<Longrightarrow> p < Suc n" using d(2) r by (simp add: less_Suc_eq)
  show "\<And>p. p \<in> insert n held \<Longrightarrow> p < Suc n" using d(3) by (auto simp: less_Suc_eq)
  show "\<And>p. p \<in> insert n held \<Longrightarrow> p \<notin> set (released (tr @ [?e]))"
    using d(2,4) r by auto
  show "\<And>q' p. p \<in> set (requested q' (tr @ [?e])) \<Longrightarrow> p \<notin> set (released (tr @ [?e])) \<Longrightarrow>
      Some q = Some q' \<and> p \<in> insert n held"
    using d(5) r by (auto simp: rq split: if_splits)
  show "\<And>q'. requested q' (tr @ [?e]) \<noteq> [] \<Longrightarrow> q' < Suc n"
    using d(6,8) by (auto simp: rq less_Suc_eq split: if_splits)
  show "\<And>q'. UnrefPipeline (Some q') \<in> set (tr @ [?e]) \<Longrightarrow> q' < Suc n"
    using d(7) by (auto simp: less_Suc_eq)
  show "\<And>q'. Some q = Some q' \<Longrightarrow> q' < Suc n" using d(8) by (auto simp: less_Suc_eq)
  show "\<And>q'. Some q = Some q' \<Longrightarrow> UnrefPipeline (Some q') \<notin> set (tr @ [?e])"
    using d(9) by auto
  show "released_before_unref (tr @ [?e])"
    using d(10) d(9) by (intro released_before_unref_keeps) (auto simp: rq)
qed

lemma accounted_release:
  assumes "accounted tr n live held" and "p \<in> held"
  shows "accounted (tr @ [UnrefPad p]) n live (held - {p})"
proof (rule accountedI)
  note d = accountedD [OF assms(1)]
  let ?e = "UnrefPad p"
  have r: "released [?e] = [p]" by (simp add: released_Cons)
  have rq: "requested q' [?e] = []" for q'
    by (simp add: requested_Cons)
  show "distinct (released (tr @ [?e]))" using d(1) d(4) assms(2) r by simp
  show "\<And>p'. p' \<in> set (released (tr @ [?e])) \<Longrightarrow> p' < n" using d(2,3) assms(2) r by auto
  show "\<And>p'. p' \<in> held - {p} \<Longrightarrow> p' < n" using d(3) by auto
  show "\<And>p'. p' \<in> held - {p} \<Longrightarrow> p' \<notin> set (released (tr @ [?e]))"
    using d(4) r by auto
  show "\<And>q' p'. p' \<in> set (requested q' (tr @ [?e])) \<Longrightarrow> p' \<notin> set (released (tr @ [?e])) \<Longrightarrow>
      live = Some q' \<and> p' \<in> held - {p}"
    using d(5) r by (auto simp: rq)
  show "\<And>q'. requested q' (tr @ [?e]) \<noteq> [] \<Longrightarrow> q' < n"
    using d(6) by (auto simp: rq)
  show "\<And>q'. UnrefPipeline (Some q') \<in> set (tr @ [?e]) \<Longrightarrow> q' < n"
    using d(7) by auto
  show "\<And>q'. live = Some q' \<Longrightarrow> q' < n" by (fact d(8))
  show "\<And>q'. live = Some q' \<Longrightarrow> UnrefPipeline (Some q') \<notin> set (tr @ [?e])"
    using d(9) by auto
  show "released_before_unref (tr @ [?e])"
    using d(10) by (intro released_before_unref_keeps) (auto simp: rq)
qed

lemma accounted_unref:
  assumes "accounted tr n live {}"
  shows "accounted (tr @ [UnrefPipeline live]) n None {}"
proof (rule accountedI)
  note d = accountedD [OF assms(1)]
  let ?e = "UnrefPipeline live"
  have r: "released [?e] = []" by (simp add: released_Cons)
  have rq: "requested q' [?e] = []" for q'
    by (simp add: requested_Cons)
  have all: "p \<in> set (requested q' tr) \<Longrightarrow> p \<in> set (released tr)" for p q'
    using d(5) by blast
  show "distinct (released (tr @ [?e]))" using d(1) r by simp
  show "\<And>p'. p' \<in> set (released (tr @ [?e])) \<Longrightarrow> p' < n" using d(2) r by auto
  show "\<And>p'. p' \<in> {} \<Longrightarrow> p' < n" by simp
  show "\<And>p'. p' \<in> {} \<Longrightarrow> p' \<notin> set (released (tr @ [?e]))" by simp
  show "\<And>q' p'. p' \<in> set (requested q' (tr @ [?e])) \<Longrightarrow> p' \<notin> set (released (tr @ [?e])) \<Longrightarrow>
      None = Some q' \<and> p' \<in> {}"
    using all r by (auto simp: rq)
  show "\<And>q'. requested q' (tr @ [?e]) \<noteq> [] \<Longrightarrow> q' < n"
    using d(6) by (auto simp: rq)
  show "\<And>q'. UnrefPipeline (Some q') \<in> set (tr @ [?e]) \<Longrightarrow> q' < n"
    using d(7,8) by auto
  show "\<And>q'. None = Some q' \<Longrightarrow> q' < n" by simp
  show "\<And>q'. None = Some q' \<Longrightarrow> UnrefPipeline (Some q') \<notin> set (tr @ [?e])" by simp
  show "released_before_unref (tr @ [?e])"
    unfolding released_before_unref_snoc
    using d(10) all by (auto simp: rq released_before_unref_def)
qed

lemma accounted_parse:
  assumes "accounted tr n None {}"
  shows "accounted (tr @ [ParseLaunch (Some n)]) (Suc n) (Some n) {}"
proof -
  have "accounted (tr @ [ParseLaunch (Some n)]) n None {}"
    by (rule accounted_other [OF assms]) (simp_all add: released_Cons requested_Cons)
  then have a: "accounted (tr @ [ParseLaunch (Some n)]) (Suc n) None {}"
    by (rule accounted_more_handles) simp
  note d = accountedD [OF a] accountedD [OF assms]
  show ?thesis
  proof (rule accountedI)
    show "\<And>q p. p \<in> set (requested q (tr @ [ParseLaunch (Some n)])) \<Longrightarrow>
        p \<notin> set (released (tr @ [ParseLaunch (Some n)])) \<Longrightarrow> Some n = Some q \<and> p \<in> {}"
      using d(5) by blast
    show "\<And>q. Some n = Some q \<Longrightarrow> UnrefPipeline (Some q) \<notin> set (tr @ [ParseLaunch (Some n)])"
      using d(17) by auto
  qed (use d in auto)
qed

lemma accounted_release_all:
  "accounted tr n live (H \<union> set ps) \<Longrightarrow> distinct ps \<Longrightarrow> H \<inter> set ps = {} \<Longrightarrow>
   accounted (tr @ map UnrefPad ps) n live H"
proof (induction ps arbitrary: tr)
  case Nil
  then show ?case by simp
next
  case (Cons p ps)
  have "accounted (tr @ [UnrefPad p]) n live ((H \<union> set (p # ps)) - {p})"
    by (rule accounted_release [OF Cons.prems(1)]) simp
  moreover have "(H \<union> set (p # ps)) - {p} = H \<union> set ps"
    using Cons.prems(2,3) by auto
  ultimately have "accounted ((tr @ [UnrefPad p]) @ map UnrefPad ps) n live H"
    using Cons.prems(2,3) by (intro Cons.IH) auto
  then show ?case by simp
qed

lemma neutral_simps:
  "neutral []"
  "neutral (Log x # es) = neutral es"
  "neutral (LogTick k m # es) = neutral es"
  "neutral (LogFps st r # es) = neutral es"
  "neutral (SetState h g # es) = neutral es"
  "neutral (GetState h # es) = neutral es"
  "neutral (SourceRemove # es) = neutral es"
  "neutral (TimeoutAdd secs c # es) = neutral es"
  "neutral (GstInit argv # es) = neutral es"
  "neutral (MainLoopUnref # es) = neutral es"
  "neutral (BusAddWatch h' # es) = neutral es"
  "neutral (ConnectHandoff h' # es) = neutral es"
  "neutral (PadLink h' ok # es) = neutral es"
  "neutral (ParseLaunch None # es) = neutral es"
  "neutral (RequestPad h' None # es) = neutral es"
  "neutral (UnrefPipeline None # es) = neutral es"
  by (simp_all add: neutral_def released_Cons requested_Cons)

lemma neutral_append: "neutral (xs @ ys) \<longleftrightarrow> neutral xs \<and> neutral ys"
  by (auto simp: neutral_def)

lemma accounted_link:
  assumes "accounted tr n (Some q) held"
  shows "accounted (tr @ link_events po q n) (n + link_used po) (Some q)
           (held \<union> set_option (link_result po n))"
proof (cases "request_ok po")
  case False
  then show ?thesis
    using accounted_neutral [OF _ assms, of "[RequestPad q None]"]
    by (simp add: link_events_def link_used_def link_result_def neutral_simps)
next
  case True
  have req: "accounted (tr @ [RequestPad q (Some n)]) (Suc n) (Some q) (insert n held)"
    by (rule accounted_request [OF assms])
  have fresh: "n \<notin> held"
    using accountedD(3) [OF assms] by blast
  show ?thesis
  proof (cases "static_ok po \<and> link_ok po")
    case linked: True
    from accounted_neutral [OF _ req, of "[PadLink n True]"]
    show ?thesis
      using True linked by (simp add: link_events_def link_used_def link_result_def neutral_simps)
  next
    case False
    have "accounted ((tr @ [RequestPad q (Some n)]) @ [PadLink n False]) (Suc n) (Some q) (insert n held)"
      by (rule accounted_neutral [OF _ req]) (simp add: neutral_simps)
    from accounted_release [OF this, of n] accounted_release [OF req, of n] fresh
    show ?thesis
      using True False by (auto simp: link_events_def link_used_def link_result_def)
  qed
qed

lemma accounted_branch:
  assumes "accounted tr (Suc n) (Some n) {}"
  shows "accounted (tr @ branch_events b n)
           (Suc (n + link_used (tee_udp b) + link_used (tee_fps b))) (Some n)
           (set_option (link_result (tee_udp b) (Suc n)) \<union>
            set_option (link_result (tee_fps b) (Suc n + link_used (tee_udp b))))"
proof -
  let ?logs = "(if \<not> link_udp_branch_ok b then [Log ''[ERROR] failed to link UDP branch''] else []) @
     (if \<not> link_fps_branch_ok b then [Log ''[ERROR] failed to link FPS branch''] else [])"
  let ?n1 = "Suc n + link_used (tee_udp b)"
  let ?h1 = "set_option (link_result (tee_udp b) (Suc n))"
  let ?log1 = "if link_result (tee_udp b) (Suc n) = None
      then [Log ''[ERROR] failed to link tee -> UDP queue''] else []"
  let ?log2 = "(if link_result (tee_fps b) ?n1 = None
      then [Log ''[ERROR] failed to link tee -> FPS queue''] else []) @ [ConnectHandoff n]"
  have 1: "accounted (tr @ ?logs) (Suc n) (Some n) {}"
    by (rule accounted_neutral [OF _ assms]) (simp add: neutral_simps)
  have 2: "accounted ((tr @ ?logs) @ link_events (tee_udp b) n (Suc n)) ?n1 (Some n) ({} \<union> ?h1)"
    by (rule accounted_link [OF 1])
  have 3: "accounted (((tr @ ?logs) @ link_events (tee_udp b) n (Suc n)) @ ?log1) ?n1 (Some n)
             ({} \<union> ?h1)"
    by (rule accounted_neutral [OF _ 2]) (simp add: neutral_simps)
  have 4: "accounted ((((tr @ ?logs) @ link_events (tee_udp b) n (Suc n)) @ ?log1)
             @ link_events (tee_fps b) n ?n1) (?n1 + link_used (tee_fps b)) (Some n)
             (({} \<union> ?h1) \<union> set_option (link_result (tee_fps b) ?n1))"
    by (rule accounted_link [OF 3])
  have 5: "accounted (((((tr @ ?logs) @ link_events (tee_udp b) n (Suc n)) @ ?log1)
             @ link_events (tee_fps b) n ?n1) @ ?log2) (?n1 + link_used (tee_fps b)) (Some n)
             (({} \<union> ?h1) \<union> set_option (link_result (tee_fps b) ?n1))"
    by (rule accounted_neutral [OF _ 4]) (simp add: neutral_simps)
  then show ?thesis
    by (simp add: branch_events_def)
qed

lemma accounted_create:
  assumes "accounted tr n None {}"
  shows "accounted (tr @ create_events b n) (n + create_used b)
           (if builds b then Some n else None)
           (if builds b
            then set_option (link_result (tee_udp b) (Suc n)) \<union>
                 set_option (link_result (tee_fps b) (Suc n + link_used (tee_udp b)))
            else {})"
proof (cases "parse_ok b")
  case False
  then show ?thesis
    using accounted_neutral [OF _ assms, of "[ParseLaunch None, Log ''[ERROR] gst_parse_launch failed'']"]
    by (simp add: create_events_def create_used_def builds_def neutral_simps)
next
  case True
  have p: "accounted (tr @ [ParseLaunch (Some n)]) (Suc n) (Some n) {}"
    by (rule accounted_parse [OF assms])
  have w: "accounted ((tr @ [ParseLaunch (Some n)]) @ [BusAddWatch n]) (Suc n) (Some n) {}"
    by (rule accounted_neutral [OF _ p]) (simp add: neutral_simps)
  show ?thesis
  proof (cases "builds b")
    case builds: True
    from accounted_branch [OF w, of b] show ?thesis
      using True builds by (simp add: create_events_def create_used_def builds_def add.assoc)
  next
    case False
    have l: "accounted (((tr @ [ParseLaunch (Some n)]) @ [BusAddWatch n]) @ [Log x])
               (Suc n) (Some n) {}" for x
      by (rule accounted_neutral [OF _ w]) (simp add: neutral_simps)
    from accounted_unref [OF l] show ?thesis
      using True False by (auto simp: create_events_def create_used_def builds_def)
  qed
qed

text \<open>The invariant holds between any two callbacks of the running program.\<close>

lemma pads_accounted_step:
  assumes "pads_accounted s" and "neutral es" and "trace s' = trace s @ es"
    and "next_handle s' = next_handle s" and "pipeline s' = pipeline s"
    and "tee_req_pad_udp s' = tee_req_pad_udp s" and "tee_req_pad_fps s' = tee_req_pad_fps s"
  shows "pads_accounted s'"
  using assms accounted_neutral [of es "trace s" "next_handle s" "pipeline s" "set (owned s)"]
  by (simp add: pads_accounted_def owned_def)

lemma pads_accounted_rebuilt:
  assumes "accounted tr n None {}" and "neutral es"
    and "trace s' = tr @ create_events b n @ es"
    and "next_handle s' = n + create_used b"
    and "pipeline s' = (if builds b then Some n else None)"
    and "tee_req_pad_udp s' = (if builds b then link_result (tee_udp b) (Suc n) else None)"
    and "tee_req_pad_fps s' =
           (if builds b then link_result (tee_fps b) (Suc n + link_used (tee_udp b)) else None)"
  shows "pads_accounted s'"
proof -
  let ?held = "if builds b
            then set_option (link_result (tee_udp b) (Suc n)) \<union>
                 set_option (link_result (tee_fps b) (Suc n + link_used (tee_udp b)))
            else {}"
  have "accounted ((tr @ create_events b n) @ es) (n + create_used b)
          (if builds b then Some n else None) ?held"
    by (rule accounted_neutral [OF assms(2) accounted_create [OF assms(1)]])
  moreover have "set (owned s') = ?held" "distinct (owned s')"
    using assms(6,7)
    by (auto simp: owned_def link_result_def link_used_def split: option.splits if_splits)
  ultimately show ?thesis
    using assms(3,4,5) by (simp add: pads_accounted_def)
qed

lemma pads_accounted_released:
  assumes "pads_accounted s" and "neutral es"
  shows "accounted (trace s @ es @ map UnrefPad (owned s) @ [UnrefPipeline (pipeline s)])
           (next_handle s) None {}"
proof -
  from assms have a: "accounted (trace s @ es) (next_handle s) (pipeline s) ({} \<union> set (owned s))"
    and d: "distinct (owned s)"
    by (simp_all add: pads_accounted_def accounted_neutral)
  have "accounted ((trace s @ es) @ map UnrefPad (owned s)) (next_handle s) (pipeline s) {}"
    by (rule accounted_release_all [OF a d]) simp
  from accounted_unref [OF this] show ?thesis by simp
qed

lemma pads_accounted_recreate:
  assumes "pads_accounted s"
  shows "pads_accounted (recreate_pipeline b s)"
proof -
  let ?A = "[Log ''[STATE] -> NULL'', SetState (pipeline s) GST_STATE_NULL, GetState (pipeline s),
          Log ''[STATE] set_state ret='']"
  let ?T = "(if state_timer_id s \<noteq> None then [SourceRemove] else [])
         @ [TimeoutAdd 1 State_machine_cb]"
  have "accounted (trace s @ ?A @ map UnrefPad (owned s) @ [UnrefPipeline (pipeline s)])
           (next_handle s) None {}"
    by (rule pads_accounted_released [OF assms]) (simp add: neutral_simps)
  then show ?thesis
    by (rule pads_accounted_rebuilt [where es = ?T and b = b])
      (simp_all add: recreate_effect neutral_simps)
qed

lemma pads_accounted_moved:
  assumes "pads_accounted s"
  shows "pads_accounted (arm_next_state_timer k ((set_pipeline_state g name s)\<lparr>phase := p\<rparr>))"
  by (rule pads_accounted_step [OF assms, where es =
        "[Log (''[STATE] -> '' @ name), SetState (pipeline s) g, GetState (pipeline s),
          Log ''[STATE] set_state ret='']
         @ (if state_timer_id s \<noteq> None then [SourceRemove] else [])
         @ [TimeoutAdd k State_machine_cb]"])
    (simp_all add: arm_effect set_pipeline_state_effect neutral_simps)

lemma pads_accounted_ticked:
  assumes "pads_accounted s"
  shows "pads_accounted (emit [LogTick k m] (s\<lparr>state_tick := k\<rparr>))"
  by (rule pads_accounted_step [OF assms, where es = "[LogTick k m]"])
    (simp_all add: emit_def neutral_simps)

lemma pads_accounted_state_machine_cb:
  assumes "pads_accounted s"
  shows "pads_accounted (state_machine_cb b s)"
  by (auto simp: state_machine_cb_def Let_def split: Phase.splits
      intro!: pads_accounted_moved pads_accounted_recreate pads_accounted_ticked assms)

lemma pads_accounted_dispatch:
  assumes "pads_accounted s"
  shows "pads_accounted (dispatch state_machine_cb bus_cb e s)"
proof (cases e)
  case (StateTimer b)
  then show ?thesis
    using assms by (simp add: dispatch_def pads_accounted_state_machine_cb)
next
  case FpsTimer
  show ?thesis
    by (rule pads_accounted_step [OF assms, where es =
          "[LogFps (current_stage s) (real (unat (frame_count s - last_frame_count s)) / 5)]"])
      (simp_all add: FpsTimer dispatch_def fps_log_cb_def Let_def emit_def neutral_simps)
next
  case Handoff
  show ?thesis
    by (rule pads_accounted_step [OF assms, where es = "[]"])
      (simp_all add: Handoff dispatch_def on_handoff_def neutral_simps)
next
  case (Bus msg)
  have "\<exists>es. neutral es \<and> bus_cb msg s = s\<lparr>trace := trace s @ es\<rparr>"
  proof (cases msg)
    case MsgError
    then have "neutral [Log ''[BUS][ERROR]''] \<and>
        bus_cb msg s = s\<lparr>trace := trace s @ [Log ''[BUS][ERROR]'']\<rparr>"
      by (simp add: bus_cb_def emit_def neutral_simps)
    then show ?thesis by blast
  next
    case MsgWarning
    then have "neutral [Log ''[BUS][WARN]''] \<and>
        bus_cb msg s = s\<lparr>trace := trace s @ [Log ''[BUS][WARN]'']\<rparr>"
      by (simp add: bus_cb_def emit_def neutral_simps)
    then show ?thesis by blast
  next
    case (MsgStateChanged src)
    then have "neutral (if pipeline s \<noteq> None \<and> src = pipeline s then [Log ''[BUS][STATE] pipeline''] else []) \<and>
        bus_cb msg s = s\<lparr>trace := trace s @ (if pipeline s \<noteq> None \<and> src = pipeline s then [Log ''[BUS][STATE] pipeline''] else [])\<rparr>"
      by (simp add: bus_cb_def emit_def neutral_simps)
    then show ?thesis by blast
  next
    case MsgOther
    then have "neutral [] \<and> bus_cb msg s = s\<lparr>trace := trace s @ []\<rparr>"
      by (simp add: bus_cb_def neutral_simps)
    then show ?thesis by blast
  qed
  then obtain es where "neutral es" "bus_cb msg s = s\<lparr>trace := trace s @ es\<rparr>"
    by blast
  then show ?thesis
    by (intro pads_accounted_step [OF assms, where es = es]) (simp_all add: Bus dispatch_def)
next
  case Sigint
  show ?thesis
    by (rule pads_accounted_step [OF assms, where es = "[Log ''[SIGNAL] SIGINT received, stopping...'']"])
      (simp_all add: Sigint dispatch_def handle_sigint_def emit_def neutral_simps)
qed

lemma pads_accounted_run:
  "pads_accounted s \<Longrightarrow> pads_accounted (fold (dispatch state_machine_cb bus_cb) evs s)"
  by (induction evs arbitrary: s) (simp_all add: pads_accounted_dispatch)

lemma main_startup_effect:
  "gi args = None \<Longrightarrow>
   main_startup args gi b s =
     (if builds b then Inr else (\<lambda>s'. Inl (Returned (- 1), s')))
       (s\<lparr>pipeline := (if builds b then Some (next_handle s) else None),
          main_loop := (if builds b then True else main_loop s),
          state_timer_id := (if builds b then Some 1 else state_timer_id s),
          tee_req_pad_udp := (if builds b then link_result (tee_udp b) (Suc (next_handle s))
                               else None),
          tee_req_pad_fps := (if builds b
                               then link_result (tee_fps b)
                                      (Suc (next_handle s) + link_used (tee_udp b))
                               else None),
          next_handle := next_handle s + create_used b,
          trace := trace s @ [GstInit args] @ create_events b (next_handle s) @
            (if builds b
             then [TimeoutAdd 5 Fps_log_cb]
                    @ (if state_timer_id s \<noteq> None then [SourceRemove] else [])
                    @ [TimeoutAdd 1 State_machine_cb,
                       Log ''[INFO] PLAYING=10s, PAUSED=1s, NULL=1s (recreate)'']
             else [])\<rparr>)"
  by (cases "builds b"; cases "state_timer_id s")
    (simp_all add: main_startup_def create_effect arm_effect Let_def emit_def)

lemma pads_accounted_startup:
  assumes "main_startup args gi b (boot\<lparr>phase_mode := m\<rparr>) = Inr s
         \<or> main_startup args gi b (boot\<lparr>phase_mode := m\<rparr>) = Inl (e, s)"
  shows "pads_accounted s"
proof -
  let ?es = "if builds b
             then [TimeoutAdd 5 Fps_log_cb, TimeoutAdd 1 State_machine_cb,
                   Log ''[INFO] PLAYING=10s, PAUSED=1s, NULL=1s (recreate)'']
             else []"
  have init: "accounted ([] @ [GstInit args]) 0 None {}"
    by (rule accounted_neutral [OF _ accounted_empty]) (simp add: neutral_simps)
  show ?thesis
  proof (cases "gi args")
    case (Some c)
    with assms have "s = emit [GstInit args] (boot\<lparr>phase_mode := m\<rparr>)"
      by (simp add: main_startup_exits)
    with init show ?thesis
      by (simp add: pads_accounted_def owned_def emit_def boot_def)
  next
    case None
    from init show ?thesis
      using assms
      by (intro pads_accounted_rebuilt [where es = ?es and b = b and tr = "[] @ [GstInit args]" and n = 0])
        (auto simp: main_startup_effect [of gi args, OF None] boot_def neutral_simps split: if_splits)
  qed
qed

lemma main_startup_Inl:
  assumes "main_startup args gi b (boot\<lparr>phase_mode := m\<rparr>) = Inl (e, s)"
  shows "pipeline s = None" "owned s = []"
  using assms
  by (cases "gi args";
      auto simp: main_startup_exits main_startup_effect owned_def emit_def boot_def
        split: if_splits)+

lemma pads_accounted_sound:
  "pads_accounted s \<Longrightarrow> never_released_twice (trace s) \<and> released_before_unref (trace s)"
  by (simp add: pads_accounted_def accounted_def never_released_twice_def)

text \<open>The same for the older program, which records no pad.\<close>

lemma link_effect_sdk191:
  "link_tee_to_queue_sdk191 po pipe s =
     (request_ok po \<and> static_ok po \<and> link_ok po,
      s\<lparr>next_handle := next_handle s + link_used po,
        trace := trace s @ link_events_sdk191 po pipe (next_handle s)\<rparr>)"
  by (simp add: link_tee_to_queue_sdk191_def link_used_def link_events_sdk191_def Let_def emit_def)

lemma create_effect_sdk191:
  "create_pipeline_sdk191 b s =
     (if parse_ok b then Some (next_handle s) else None,
      s\<lparr>next_handle := next_handle s + create_used_sdk191 b,
        trace := trace s @ create_events_sdk191 b (next_handle s)\<rparr>)"
  by (simp add: create_pipeline_sdk191_def link_effect_sdk191 create_events_sdk191_def
      create_used_sdk191_def Let_def emit_def)

lemma accounted_link_sdk191:
  assumes "accounted tr n (Some q) held"
  shows "accounted (tr @ link_events_sdk191 po q n) (n + link_used po) (Some q) held"
proof (cases "request_ok po")
  case False
  then show ?thesis
    using accounted_neutral [OF _ assms, of "[RequestPad q None]"]
    by (simp add: link_events_sdk191_def link_used_def neutral_simps)
next
  case True
  have req: "accounted (tr @ [RequestPad q (Some n)]) (Suc n) (Some q) (insert n held)"
    by (rule accounted_request [OF assms])
  have fresh: "insert n held - {n} = held"
    using accountedD(3) [OF assms] by blast
  have "accounted ((tr @ [RequestPad q (Some n)]) @ [PadLink n ok]) (Suc n) (Some q) (insert n held)"
    for ok
    by (rule accounted_neutral [OF _ req]) (simp add: neutral_simps)
  from accounted_release [OF this, of n] accounted_release [OF req, of n] fresh
  show ?thesis
    using True by (auto simp: link_events_sdk191_def link_used_def)
qed

lemma accounted_create_sdk191:
  assumes "accounted tr n None {}"
  shows "accounted (tr @ create_events_sdk191 b n) (n + create_used_sdk191 b)
           (if parse_ok b then Some n else None) {}"
proof (cases "parse_ok b")
  case False
  then show ?thesis
    using accounted_neutral [OF _ assms, of "[ParseLaunch None]"]
    by (simp add: create_events_sdk191_def create_used_sdk191_def neutral_simps)
next
  case True
  let ?n1 = "Suc n + link_used (tee_udp b)"
  have 1: "accounted (tr @ [ParseLaunch (Some n)]) (Suc n) (Some n) {}"
    by (rule accounted_parse [OF assms])
  have 2: "accounted ((tr @ [ParseLaunch (Some n)]) @ link_events_sdk191 (tee_udp b) n (Suc n))
             ?n1 (Some n) {}"
    by (rule accounted_link_sdk191 [OF 1])
  have 3: "accounted (((tr @ [ParseLaunch (Some n)]) @ link_events_sdk191 (tee_udp b) n (Suc n))
             @ link_events_sdk191 (tee_fps b) n ?n1) (?n1 + link_used (tee_fps b)) (Some n) {}"
    by (rule accounted_link_sdk191 [OF 2])
  have "accounted ((((tr @ [ParseLaunch (Some n)]) @ link_events_sdk191 (tee_udp b) n (Suc n))
             @ link_events_sdk191 (tee_fps b) n ?n1) @ [ConnectHandoff n])
             (?n1 + link_used (tee_fps b)) (Some n) {}"
    by (rule accounted_neutral [OF _ 3]) (simp add: neutral_simps)
  then show ?thesis
    using True by (simp add: create_events_sdk191_def create_used_sdk191_def add.assoc)
qed

lemma pads_accounted_rebuilt_sdk191:
  assumes "accounted tr n None {}" and "neutral es"
    and "trace s' = tr @ create_events_sdk191 b n @ es"
    and "next_handle s' = n + create_used_sdk191 b"
    and "pipeline s' = (if parse_ok b then Some n else None)"
    and "owned s' = []"
  shows "pads_accounted s'"
proof -
  have "accounted ((tr @ create_events_sdk191 b n) @ es) (n + create_used_sdk191 b)
          (if parse_ok b then Some n else None) {}"
    by (rule accounted_neutral [OF assms(2) accounted_create_sdk191 [OF assms(1)]])
  then show ?thesis
    using assms(3,4,5,6) by (simp add: pads_accounted_def)
qed

lemma set_pipeline_state_effect_sdk191:
  "set_pipeline_state_sdk191 state name s =
     s\<lparr>current_stage := name,
       trace := trace s @ [Log (''[STATE] -> '' @ name), SetState (pipeline s) state]\<rparr>"
  by (simp add: set_pipeline_state_sdk191_def emit_def)

lemma pads_accounted_moved_sdk191:
  assumes "pads_accounted s"
  shows "pads_accounted (arm_next_state_timer k ((set_pipeline_state_sdk191 g name s)\<lparr>phase := p\<rparr>))"
  by (rule pads_accounted_step [OF assms, where es =
        "[Log (''[STATE] -> '' @ name), SetState (pipeline s) g]
         @ (if state_timer_id s \<noteq> None then [SourceRemove] else [])
         @ [TimeoutAdd k State_machine_cb]"])
    (simp_all add: arm_effect set_pipeline_state_effect_sdk191 neutral_simps)

lemma owned_moved_sdk191:
  "owned (arm_next_state_timer k ((set_pipeline_state_sdk191 g name s)\<lparr>phase := p\<rparr>)) = owned s"
  by (simp add: arm_effect set_pipeline_state_effect_sdk191 owned_def)

lemma pads_accounted_recreate_sdk191:
  fixes b :: build_outcome
  assumes "pads_accounted s" and "owned s = []"
  defines "s1 \<equiv> set_pipeline_state_sdk191 GST_STATE_NULL ''NULL'' s"
  defines "s2 \<equiv> emit [UnrefPipeline (pipeline s1)] s1"
  defines "s' \<equiv> arm_next_state_timer 1
       ((snd (create_pipeline_sdk191 b s2))\<lparr>pipeline := fst (create_pipeline_sdk191 b s2),
          phase := NULL_STATE\<rparr>)"
  shows "pads_accounted s' \<and> owned s' = []"
proof -
  let ?A = "[Log ''[STATE] -> NULL'', SetState (pipeline s) GST_STATE_NULL]"
  let ?T = "(if state_timer_id s \<noteq> None then [SourceRemove] else [])
         @ [TimeoutAdd 1 State_machine_cb]"
  have o: "owned s' = []"
    using assms(2)
    by (simp add: s'_def s2_def s1_def arm_effect create_effect_sdk191 emit_def
        set_pipeline_state_effect_sdk191 owned_def)
  have "accounted (trace s @ ?A @ map UnrefPad (owned s) @ [UnrefPipeline (pipeline s)])
           (next_handle s) None {}"
    by (rule pads_accounted_released [OF assms(1)]) (simp add: neutral_simps)
  then have "pads_accounted s'"
    using o
    by (intro pads_accounted_rebuilt_sdk191 [where es = ?T and b = b and n = "next_handle s"
          and tr = "trace s @ ?A @ map UnrefPad (owned s) @ [UnrefPipeline (pipeline s)]"])
      (simp_all add: s'_def s2_def s1_def assms(2) arm_effect create_effect_sdk191 emit_def
        set_pipeline_state_effect_sdk191 neutral_simps)
  with o show ?thesis by simp
qed

lemma pads_accounted_state_machine_cb_sdk191:
  assumes "pads_accounted s" and "owned s = []"
  shows "pads_accounted (state_machine_cb_sdk191 b s) \<and> owned (state_machine_cb_sdk191 b s) = []"
proof -
  let ?s = "emit [LogTick (state_tick s + 1) None] (s\<lparr>state_tick := state_tick s + 1\<rparr>)"
  have t: "pads_accounted ?s" "owned ?s = []"
    using pads_accounted_ticked [OF assms(1)] assms(2) by (simp_all add: emit_def owned_def)
  show ?thesis
  proof (cases "phase s = READY")
    case True
    with pads_accounted_recreate_sdk191 [OF t, of b] show ?thesis
      by (simp add: state_machine_cb_sdk191_def Let_def split_def emit_def)
  next
    case False
    with pads_accounted_moved_sdk191 [OF t(1)] t(2) show ?thesis
      by (cases "phase s")
        (simp_all add: state_machine_cb_sdk191_def Let_def emit_def owned_moved_sdk191)
  qed
qed

lemma pads_accounted_dispatch_sdk191:
  assumes "pads_accounted s" and "owned s = []"
  shows "pads_accounted (dispatch state_machine_cb_sdk191 (\<lambda>msg s. s) e s)
       \<and> owned (dispatch state_machine_cb_sdk191 (\<lambda>msg s. s) e s) = []"
proof (cases e)
  case (StateTimer b)
  then show ?thesis
    using assms by (simp add: dispatch_def pads_accounted_state_machine_cb_sdk191)
next
  case FpsTimer
  have "pads_accounted (fps_log_cb s)"
    by (rule pads_accounted_step [OF assms(1), where es =
          "[LogFps (current_stage s) (real (unat (frame_count s - last_frame_count s)) / 5)]"])
      (simp_all add: fps_log_cb_def Let_def emit_def neutral_simps)
  then show ?thesis
    using assms(2) by (simp add: FpsTimer dispatch_def fps_log_cb_def Let_def emit_def owned_def)
next
  case Handoff
  have "pads_accounted (on_handoff s)"
    by (rule pads_accounted_step [OF assms(1), where es = "[]"])
      (simp_all add: on_handoff_def neutral_simps)
  then show ?thesis
    using assms(2) by (simp add: Handoff dispatch_def on_handoff_def owned_def)
next
  case (Bus msg)
  then show ?thesis
    using assms by (simp add: dispatch_def)
next
  case Sigint
  have "pads_accounted (snd (handle_sigint s))"
    by (rule pads_accounted_step [OF assms(1), where es = "[Log ''[SIGNAL] SIGINT received, stopping...'']"])
      (simp_all add: handle_sigint_def emit_def neutral_simps)
  then show ?thesis
    using assms(2) by (simp add: Sigint dispatch_def handle_sigint_def emit_def owned_def)
qed

lemma pads_accounted_run_sdk191:
  "pads_accounted s \<Longrightarrow> owned s = [] \<Longrightarrow>
   pads_accounted (fold (dispatch state_machine_cb_sdk191 (\<lambda>msg s. s)) evs s)
   \<and> owned (fold (dispatch state_machine_cb_sdk191 (\<lambda>msg s. s)) evs s) = []"
  by (induction evs arbitrary: s) (simp_all add: pads_accounted_dispatch_sdk191)

lemma main_startup_exits_sdk191:
  "gi args = Some c \<Longrightarrow>
   main_startup_sdk191 args gi b s = Inl (Exited c, emit [GstInit args] s)"
  by (simp add: main_startup_sdk191_def)

lemma main_startup_effect_sdk191:
  "gi args = None \<Longrightarrow>
   main_startup_sdk191 args gi b s =
     (if parse_ok b then Inr else (\<lambda>s'. Inl (Returned (- 1), s')))
       (s\<lparr>pipeline := (if parse_ok b then Some (next_handle s) else None),
          main_loop := (if parse_ok b then True else main_loop s),
          state_timer_id := (if parse_ok b then Some 1 else state_timer_id s),
          next_handle := next_handle s + create_used_sdk191 b,
          trace := trace s @ [GstInit args] @ create_events_sdk191 b (next_handle s) @
            (if parse_ok b
             then [TimeoutAdd 5 Fps_log_cb]
                    @ (if state_timer_id s \<noteq> None then [SourceRemove] else [])
                    @ [TimeoutAdd 1 State_machine_cb,
                       Log ''[INFO] PLAYING=30s, PAUSED=1s, NULL=1s (recreate)'']
             else [])\<rparr>)"
  by (cases "parse_ok b"; cases "state_timer_id s")
    (simp_all add: main_startup_sdk191_def create_effect_sdk191 arm_effect Let_def emit_def)

lemma pads_accounted_startup_sdk191:
  assumes "main_startup_sdk191 args gi b boot = Inr s
         \<or> main_startup_sdk191 args gi b boot = Inl (e, s)"
  shows "pads_accounted s \<and> owned s = []"
proof -
  let ?es = "if parse_ok b
             then [TimeoutAdd 5 Fps_log_cb, TimeoutAdd 1 State_machine_cb,
                   Log ''[INFO] PLAYING=30s, PAUSED=1s, NULL=1s (recreate)'']
             else []"
  have init: "accounted ([] @ [GstInit args]) 0 None {}"
    by (rule accounted_neutral [OF _ accounted_empty]) (simp add: neutral_simps)
  show ?thesis
  proof (cases "gi args")
    case (Some c)
    with assms have "s = emit [GstInit args] boot"
      by (simp add: main_startup_exits_sdk191)
    with init show ?thesis
      by (simp add: pads_accounted_def owned_def emit_def boot_def)
  next
    case None
    have o: "owned s = []"
      using assms
      by (auto simp: main_startup_effect_sdk191 [of gi args, OF None] boot_def owned_def split: if_splits)
    from init have "pads_accounted s"
      using assms o
      by (intro pads_accounted_rebuilt_sdk191 [where es = ?es and b = b and tr = "[] @ [GstInit args]" and n = 0])
        (auto simp: main_startup_effect_sdk191 [of gi args, OF None] boot_def neutral_simps split: if_splits)
    with o show ?thesis by simp
  qed
qed

lemma main_startup_Inl_sdk191:
  assumes "main_startup_sdk191 args gi b boot = Inl (e, s)"
  shows "pipeline s = None"
  using assms
  by (cases "gi args";
      auto simp: main_startup_exits_sdk191 main_startup_effect_sdk191 emit_def boot_def
        split: if_splits)

text \<open>The whole run, from \<open>main\<close> to its return.\<close>

lemma g_main_loop_run_reaches:
  "g_main_loop_run cb watch evs s = Some s' \<Longrightarrow>
   \<exists>pre. s' = dispatch cb watch Sigint (fold (dispatch cb watch) pre s)"
proof (induction evs arbitrary: s)
  case Nil
  then show ?case by simp
next
  case (Cons e evs)
  show ?case
  proof (cases "e = Sigint \<and> fst (handle_sigint s)")
    case True
    with Cons.prems have "s' = dispatch cb watch Sigint (fold (dispatch cb watch) [] s)"
      by (simp add: dispatch_def)
    then show ?thesis by blast
  next
    case False
    with Cons.prems have "g_main_loop_run cb watch evs (dispatch cb watch e s) = Some s'"
      by auto
    from Cons.IH [OF this] obtain pre
      where "s' = dispatch cb watch Sigint (fold (dispatch cb watch) (e # pre) s)"
      by auto
    then show ?thesis by blast
  qed
qed

lemma accounted_sound:
  assumes "accounted tr n live held"
  shows "never_released_twice tr \<and> released_before_unref tr"
  using assms by (simp add: accounted_def never_released_twice_def)

lemma accounted_all_released:
  assumes "accounted tr n None {}"
  shows "set (requested q tr) \<subseteq> set (released tr)"
  using accountedD(5) [OF assms] by blast

lemma main_accounted:
  assumes "main args gi b evs = Some (code, s)"
  shows "\<exists>n. accounted (trace s) n None {}"
proof (cases "parse_args (phase_mode boot) args")
  case Help
  have "accounted ([] @ [Log ''Usage: '']) 0 None {}"
    by (rule accounted_neutral [OF _ accounted_empty]) (simp add: neutral_simps)
  with assms Help show ?thesis
    by (auto simp: main_def emit_def boot_def)
next
  case (Threw e)
  with assms accounted_empty show ?thesis
    by (auto simp: main_def boot_def)
next
  case (Parsed m)
  show ?thesis
  proof (cases "m \<noteq> 3 \<and> m \<noteq> 4")
    case True
    have "accounted ([] @ [Log ''[ERROR] --phase must be 3 or 4'']) 0 None {}"
      by (rule accounted_neutral [OF _ accounted_empty]) (simp add: neutral_simps)
    with assms Parsed True show ?thesis
      by (auto simp: main_def emit_def boot_def)
  next
    case False
    show ?thesis
    proof (cases "main_startup args gi b (boot\<lparr>phase_mode := m\<rparr>)")
      case (Inl r)
      with assms Parsed False have s: "r = (code, s)" by (auto simp: main_def)
      have nb: "pipeline s = None" "owned s = []"
        using main_startup_Inl [of args gi b m code s] Inl s by simp_all
      from pads_accounted_startup [of args gi b m s code] Inl s
      have "accounted (trace s) (next_handle s) None {}"
        by (simp add: pads_accounted_def nb)
      then show ?thesis by blast
    next
      case (Inr s1)
      with assms Parsed False obtain s2
        where run: "g_main_loop_run state_machine_cb bus_cb evs s1 = Some s2"
          and s: "s = main_shutdown s2"
        by (auto simp: main_def split: option.splits)
      from g_main_loop_run_reaches [OF run] obtain pre
        where s2: "s2 = dispatch state_machine_cb bus_cb Sigint
                          (fold (dispatch state_machine_cb bus_cb) pre s1)"
        by auto
      have "pads_accounted s1"
        using pads_accounted_startup [of args gi b m s1] Inr by simp
      then have "pads_accounted s2"
        unfolding s2 by (intro pads_accounted_dispatch pads_accounted_run)
      from pads_accounted_released [OF this, of "[SetState (pipeline s2) GST_STATE_NULL]"]
      have "accounted (trace s2 @ [SetState (pipeline s2) GST_STATE_NULL] @
              map UnrefPad (owned s2) @ [UnrefPipeline (pipeline s2)]) (next_handle s2) None {}"
        by (simp add: neutral_simps)
      from accounted_neutral [OF _ this, of "[MainLoopUnref]"]
      have "accounted (trace (main_shutdown s2)) (next_handle s2) None {}"
        by (simp add: main_shutdown_trace neutral_simps)
      with s show ?thesis by blast
    qed
  qed
qed

lemma main_sdk191_accounted:
  assumes "main_sdk191 args gi b evs = Some (code, s)"
  shows "\<exists>n. accounted (trace s) n None {}"
proof (cases "main_startup_sdk191 args gi b boot")
  case (Inl r)
  with assms have s: "r = (code, s)" by (auto simp: main_sdk191_def)
  have nb: "pipeline s = None"
    using main_startup_Inl_sdk191 [of args gi b code s] Inl s by simp
  from pads_accounted_startup_sdk191 [of args gi b s code] Inl s
  have pa: "pads_accounted s" "owned s = []"
    by simp_all
  then have "accounted (trace s) (next_handle s) None {}"
    by (simp add: pads_accounted_def nb)
  then show ?thesis by blast
next
  case (Inr s1)
  with assms obtain s2
    where run: "g_main_loop_run state_machine_cb_sdk191 (\<lambda>msg s. s) evs s1 = Some s2"
      and s: "s = emit [SetState (pipeline s2) GST_STATE_NULL, UnrefPipeline (pipeline s2),
                       MainLoopUnref] s2"
    by (auto simp: main_sdk191_def split: option.splits)
  from g_main_loop_run_reaches [OF run] obtain pre
    where s2: "s2 = dispatch state_machine_cb_sdk191 (\<lambda>msg s. s) Sigint
                      (fold (dispatch state_machine_cb_sdk191 (\<lambda>msg s. s)) pre s1)"
    by auto
  have s1: "pads_accounted s1" "owned s1 = []"
    using pads_accounted_startup_sdk191 [of args gi b s1] Inr by simp_all
  have mid: "pads_accounted (fold (dispatch state_machine_cb_sdk191 (\<lambda>msg s. s)) pre s1)"
    "owned (fold (dispatch state_machine_cb_sdk191 (\<lambda>msg s. s)) pre s1) = []"
    using pads_accounted_run_sdk191 [OF s1, of pre] by simp_all
  have inv: "pads_accounted s2" "owned s2 = []"
    unfolding s2 using pads_accounted_dispatch_sdk191 [OF mid, of Sigint] by simp_all
  from pads_accounted_released [OF inv(1), of "[SetState (pipeline s2) GST_STATE_NULL]"]
  have "accounted (trace s2 @ [SetState (pipeline s2) GST_STATE_NULL] @
          [UnrefPipeline (pipeline s2)]) (next_handle s2) None {}"
    by (simp add: neutral_simps inv(2))
  from accounted_neutral [OF _ this, of "[MainLoopUnref]"]
  have "accounted (trace s) (next_handle s2) None {}"
    by (simp add: s emit_def neutral_simps)
  then show ?thesis by blast
qed

text \<open>
  Claim C1. In every trace the program can produce -- up to any point of the loop, and up
  to the return of \<open>main\<close> -- no pad is released twice, and wherever a pipeline is
  unreffed (by a rebuild of the state machine, on a failed construction, or at the end of
  \<open>main\<close>), every pad requested from its tee has been released before that unref. Since
  no pad is released twice, each of these pads is released exactly once, and none
  outlives its pipeline. When \<open>main\<close> returns, every pad requested in the run has been
  released. The same holds of the older program, which unrefs each pad right after
  linking it.
\<close>

theorem pads_released_once_before_unref:
  "(main_startup args gi b (boot\<lparr>phase_mode := m\<rparr>) = Inr s0 \<longrightarrow>
      never_released_twice (trace (fold (dispatch state_machine_cb bus_cb) evs s0)) \<and>
      released_before_unref (trace (fold (dispatch state_machine_cb bus_cb) evs s0)))
   \<and> (main args gi b evs = Some (code, s) \<longrightarrow>
        never_released_twice (trace s) \<and> released_before_unref (trace s) \<and>
        (\<forall>q. set (requested q (trace s)) \<subseteq> set (released (trace s))))
   \<and> (main_startup_sdk191 args gi b boot = Inr s0 \<longrightarrow>
        never_released_twice (trace (fold (dispatch state_machine_cb_sdk191 (\<lambda>msg s. s)) evs s0)) \<and>
        released_before_unref (trace (fold (dispatch state_machine_cb_sdk191 (\<lambda>msg s. s)) evs s0)))
   \<and> (main_sdk191 args gi b evs = Some (code, s) \<longrightarrow>
        never_released_twice (trace s) \<and> released_before_unref (trace s) \<and>
        (\<forall>q. set (requested q (trace s)) \<subseteq> set (released (trace s))))"
proof (intro conjI impI allI)
  assume a: "main_startup args gi b (boot\<lparr>phase_mode := m\<rparr>) = Inr s0"
  have "pads_accounted (fold (dispatch state_machine_cb bus_cb) evs s0)"
    using pads_accounted_run [OF pads_accounted_startup [of args gi b m s0]] a by simp
  then show "never_released_twice (trace (fold (dispatch state_machine_cb bus_cb) evs s0))"
    and "released_before_unref (trace (fold (dispatch state_machine_cb bus_cb) evs s0))"
    using pads_accounted_sound by blast+
next
  assume "main args gi b evs = Some (code, s)"
  from main_accounted [OF this] obtain n where n: "accounted (trace s) n None {}" ..
  show "never_released_twice (trace s)" and "released_before_unref (trace s)"
    using accounted_sound [OF n] by simp_all
  show "set (requested q (trace s)) \<subseteq> set (released (trace s))" for q
    by (rule accounted_all_released [OF n])
next
  assume a: "main_startup_sdk191 args gi b boot = Inr s0"
  have "pads_accounted (fold (dispatch state_machine_cb_sdk191 (\<lambda>msg s. s)) evs s0)"
    using pads_accounted_run_sdk191 [of s0 evs] pads_accounted_startup_sdk191 [of args gi b s0] a
    by simp
  then show "never_released_twice (trace (fold (dispatch state_machine_cb_sdk191 (\<lambda>msg s. s)) evs s0))"
    and "released_before_unref (trace (fold (dispatch state_machine_cb_sdk191 (\<lambda>msg s. s)) evs s0))"
    using pads_accounted_sound by blast+
next
  assume "main_sdk191 args gi b evs = Some (code, s)"
  from main_sdk191_accounted [OF this] obtain n where n: "accounted (trace s) n None {}" ..
  show "never_released_twice (trace s)" and "released_before_unref (trace s)"
    using accounted_sound [OF n] by simp_all
  show "set (requested q (trace s)) \<subseteq> set (released (trace s))" for q
    by (rule accounted_all_released [OF n])
qed

lemma sample_run:
  "(case main [] gst_init_returns all_ok [StateTimer all_ok, StateTimer all_ok, StateTimer fps_unlinked,
                        StateTimer all_ok, Sigint] of
      Some (c, s) \<Rightarrow> c = Returned 0 \<and> requested 0 (trace s) = [1, 2] \<and>
        requested 3 (trace s) = [4, 5] \<and> released (trace s) = [1, 2, 5, 4]
    | None \<Rightarrow> False)"
  by code_simp

lemma sample_run_sdk191:
  "(case main_sdk191 [] gst_init_returns all_ok [StateTimer all_ok, StateTimer all_ok, StateTimer all_ok,
                            StateTimer fps_unlinked, Sigint] of
      Some (c, s) \<Rightarrow> c = Returned 0 \<and> requested 0 (trace s) = [1, 2] \<and>
        requested 3 (trace s) = [4, 5] \<and> released (trace s) = [1, 2, 4, 5]
    | None \<Rightarrow> False)"
  by code_simp

theorem pads_released_once_before_unref_witness:
  "(\<exists>c s. main [] gst_init_returns all_ok [StateTimer all_ok, StateTimer all_ok, StateTimer fps_unlinked,
                        StateTimer all_ok, Sigint] = Some (c, s) \<and>
      c = Returned 0 \<and> never_released_twice (trace s) \<and> released_before_unref (trace s) \<and>
      requested 0 (trace s) = [1, 2] \<and> requested 3 (trace s) = [4, 5] \<and>
      released (trace s) = [1, 2, 5, 4])
   \<and> (\<exists>c s. main_sdk191 [] gst_init_returns all_ok [StateTimer all_ok, StateTimer all_ok, StateTimer all_ok,
                            StateTimer fps_unlinked, Sigint] = Some (c, s) \<and>
      c = Returned 0 \<and> never_released_twice (trace s) \<and> released_before_unref (trace s) \<and>
      requested 0 (trace s) = [1, 2] \<and> requested 3 (trace s) = [4, 5] \<and>
      released (trace s) = [1, 2, 4, 5])"
proof (intro conjI)
  let ?evs = "[StateTimer all_ok, StateTimer all_ok, StateTimer fps_unlinked,
                        StateTimer all_ok, Sigint]"
  from sample_run obtain c s where r: "main [] gst_init_returns all_ok ?evs = Some (c, s)" "c = Returned 0"
    "requested 0 (trace s) = [1, 2]" "requested 3 (trace s) = [4, 5]"
    "released (trace s) = [1, 2, 5, 4]"
    by (auto split: option.splits)
  from pads_released_once_before_unref [of "[]" gst_init_returns all_ok _ _ ?evs c s] r(1)
  have "never_released_twice (trace s) \<and> released_before_unref (trace s)"
    by blast
  with r show "\<exists>c s. main [] gst_init_returns all_ok ?evs = Some (c, s) \<and>
      c = Returned 0 \<and> never_released_twice (trace s) \<and> released_before_unref (trace s) \<and>
      requested 0 (trace s) = [1, 2] \<and> requested 3 (trace s) = [4, 5] \<and>
      released (trace s) = [1, 2, 5, 4]"
    by blast
next
  let ?evs = "[StateTimer all_ok, StateTimer all_ok, StateTimer all_ok,
                            StateTimer fps_unlinked, Sigint]"
  from sample_run_sdk191 obtain c s where r: "main_sdk191 [] gst_init_returns all_ok ?evs = Some (c, s)"
    "c = Returned 0" "requested 0 (trace s) = [1, 2]" "requested 3 (trace s) = [4, 5]"
    "released (trace s) = [1, 2, 4, 5]"
    by (auto split: option.splits)
  from pads_released_once_before_unref [of "[]" gst_init_returns all_ok _ _ ?evs c s] r(1)
  have "never_released_twice (trace s) \<and> released_before_unref (trace s)"
    by blast
  with r show "\<exists>c s. main_sdk191 [] gst_init_returns all_ok ?evs = Some (c, s) \<and>
      c = Returned 0 \<and> never_released_twice (trace s) \<and> released_before_unref (trace s) \<and>
      requested 0 (trace s) = [1, 2] \<and> requested 3 (trace s) = [4, 5] \<and>
      released (trace s) = [1, 2, 4, 5]"
    by blast
qed

end
